theory Spec2Isabelle
  imports Complex_Main
begin

section \<open>Text: the string operations the adapter uses\<close>

text \<open>
  Python strings are modelled as \<open>string\<close>. The character classes below are the ASCII
  part of what Python's \<open>str.lower\<close>, \<open>str.strip\<close> and the \<open>re\<close> module do;
  a character outside ASCII is kept by \<open>lower\<close> and is neither a space nor a word
  character here.
\<close>

definition lower_char :: "char \<Rightarrow> char" where
  "lower_char c =
     (case map_of (zip ''ABCDEFGHIJKLMNOPQRSTUVWXYZ'' ''abcdefghijklmnopqrstuvwxyz'') c of
        Some l \<Rightarrow> l
      | None \<Rightarrow> c)"

definition lower :: "string \<Rightarrow> string" where
  "lower s = map lower_char s"

definition is_space :: "char \<Rightarrow> bool" where
  "is_space c \<longleftrightarrow>
     c \<in> set [CHR 0x09, CHR 0x0A, CHR 0x0B, CHR 0x0C, CHR 0x0D,
               CHR 0x1C, CHR 0x1D, CHR 0x1E, CHR 0x1F, CHR '' '']"

definition is_word :: "char \<Rightarrow> bool" where
  "is_word c \<longleftrightarrow>
     c \<in> set (''abcdefghijklmnopqrstuvwxyz'' @ ''ABCDEFGHIJKLMNOPQRSTUVWXYZ'' @ ''0123456789_'')"

definition strip :: "string \<Rightarrow> string" where
  "strip s = rev (dropWhile is_space (rev (dropWhile is_space s)))"

fun startswith :: "string \<Rightarrow> string \<Rightarrow> bool" where
  "startswith s [] = True"
| "startswith [] (p # ps) = False"
| "startswith (c # cs) (p # ps) = (c = p \<and> startswith cs ps)"

fun contains :: "string \<Rightarrow> string \<Rightarrow> bool" where
  "contains [] sub = (sub = [])"
| "contains (c # cs) sub = (startswith (c # cs) sub \<or> contains cs sub)"

definition endswith :: "string \<Rightarrow> string \<Rightarrow> bool" where
  "endswith s p = startswith (rev s) (rev p)"

section \<open>Regular expressions: the fragment of \<open>re\<close> the pattern tables use\<close>

text \<open>
  The tables use literals, \<open>\s\<close>, \<open>\w\<close>, \<open>.\<close>, bracket classes (written as
  alternatives of single characters), \<open>?\<close>, \<open>*\<close>, \<open>+\<close>, alternation in groups, and
  the anchors \<open>^\<close> and \<open>\b\<close>.
\<close>

datatype rx =
    Eps
  | Chr char
  | Space
  | Word
  | Dot
  | Bol
  | WordB
  | Seq rx rx
  | Alt rx rx
  | Opt rx
  | Star rx

text \<open>
  A position in the searched text is the character before it (\<open>None\<close> at the start of the
  text) and the rest of the text after it; the anchors read both.
\<close>

type_synonym pos = "char option \<times> string"

definition word_before :: "pos \<Rightarrow> bool" where
  "word_before p = (case fst p of None \<Rightarrow> False | Some c \<Rightarrow> is_word c)"

definition word_after :: "pos \<Rightarrow> bool" where
  "word_after p = (case snd p of [] \<Rightarrow> False | c # cs \<Rightarrow> is_word c)"

definition take_char :: "(char \<Rightarrow> bool) \<Rightarrow> pos \<Rightarrow> pos list" where
  "take_char ok p = (case snd p of [] \<Rightarrow> [] | c # cs \<Rightarrow> if ok c then [(Some c, cs)] else [])"

text \<open>
  \<open>star_iter n f p\<close>: the positions reached from \<open>p\<close> by repeating \<open>f\<close> up to \<open>n\<close>
  times, each repetition consuming at least one character; \<open>n\<close> is the length of the rest
  of the text, so no repetition is cut short.
\<close>

fun star_iter :: "nat \<Rightarrow> (pos \<Rightarrow> pos list) \<Rightarrow> pos \<Rightarrow> pos list" where
  "star_iter 0 f p = [p]"
| "star_iter (Suc n) f p =
     p # concat (map (star_iter n f) (filter (\<lambda>q. length (snd q) < length (snd p)) (f p)))"

text \<open>
  \<open>rx_match ic r p\<close>: every position at which a match of \<open>r\<close> that starts at \<open>p\<close> can
  end. \<open>ic\<close> is the flag \<open>re.IGNORECASE\<close>.
\<close>

fun rx_match :: "bool \<Rightarrow> rx \<Rightarrow> pos \<Rightarrow> pos list" where
  "rx_match ic Eps p = [p]"
| "rx_match ic (Chr c) p =
     take_char (\<lambda>x. if ic then lower_char x = lower_char c else x = c) p"
| "rx_match ic Space p = take_char is_space p"
| "rx_match ic Word p = take_char is_word p"
| "rx_match ic Dot p = take_char (\<lambda>x. x \<noteq> CHR 0x0A) p"
| "rx_match ic Bol p = (if fst p = None then [p] else [])"
| "rx_match ic WordB p = (if word_before p \<noteq> word_after p then [p] else [])"
| "rx_match ic (Seq a b) p = concat (map (\<lambda>q. rx_match ic b q) (rx_match ic a p))"
| "rx_match ic (Alt a b) p = rx_match ic a p @ rx_match ic b p"
| "rx_match ic (Opt a) p = p # rx_match ic a p"
| "rx_match ic (Star a) p = star_iter (length (snd p)) (\<lambda>q. rx_match ic a q) p"

fun positions :: "char option \<Rightarrow> string \<Rightarrow> pos list" where
  "positions prev [] = [(prev, [])]"
| "positions prev (c # cs) = (prev, c # cs) # positions (Some c) cs"

definition re_search :: "bool \<Rightarrow> rx \<Rightarrow> string \<Rightarrow> bool" where
  "re_search ic r s = list_ex (\<lambda>p. rx_match ic r p \<noteq> []) (positions None s)"

fun lit :: "string \<Rightarrow> rx" where
  "lit [] = Eps"
| "lit [c] = Chr c"
| "lit (c # cs) = Seq (Chr c) (lit cs)"

fun seqs :: "rx list \<Rightarrow> rx" where
  "seqs [] = Eps"
| "seqs [r] = r"
| "seqs (r # rs) = Seq r (seqs rs)"

fun alts :: "rx list \<Rightarrow> rx" where
  "alts [] = Eps"
| "alts [r] = r"
| "alts (r # rs) = Alt r (alts rs)"

definition Plus :: "rx \<Rightarrow> rx" where
  "Plus r = Seq r (Star r)"

section \<open>The pattern tables of \<open>adapters/claude_code.py\<close>\<close>

definition ERROR_PATTERNS :: "rx list" where
  "ERROR_PATTERNS =
    [seqs [lit ''error'', alts [Chr CHR '':'', Space]],
     lit ''failed'',
     lit ''failure'',
     lit ''not found'',
     lit ''doesn't exist'',
     lit ''invalid'',
     seqs [lit ''cannot'', WordB],
     lit ''unable to'']"

definition RETRY_PATTERNS :: "rx list" where
  "RETRY_PATTERNS =
    [lit ''let me try'',
     lit ''let me check'',
     lit ''let me fix'',
     lit ''let me look'',
     lit ''that didn't work'',
     lit ''try a different'',
     lit ''try another'',
     seqs [lit ''instead'', Opt (Chr CHR '',''), Plus Space, alts [lit ''let'', lit ''I'll'']],
     seqs [lit ''actually'', Opt (Chr CHR '',''), Plus Space, alts [lit ''the'', lit ''let'', lit ''I'']],
     lit ''the issue is'',
     lit ''the problem is'',
     lit ''I see the issue'']"

definition CORRECTION_PATTERNS :: "rx list" where
  "CORRECTION_PATTERNS =
    [seqs [Bol, lit ''no'', alts [Chr CHR '','', Chr CHR ''.'', Space]],
     seqs [Bol, lit ''wrong''],
     seqs [Bol, lit ''that's wrong''],
     seqs [Bol, lit ''actually'', alts [Chr CHR '','', Space]],
     lit ''you can't'',
     lit ''that's not'',
     lit ''that won't work'',
     lit ''that doesn't'',
     lit ''not what I'',
     seqs [lit ''I said'', WordB],
     seqs [lit ''I meant'', WordB]]"

definition DISCOVERY_PATTERNS :: "rx list" where
  "DISCOVERY_PATTERNS =
    [seqs [lit ''I see'', alts [Space, Chr CHR ''!'']],
     lit ''I found'',
     seqs [lit ''the '', alts [lit ''issue'', lit ''problem'', lit ''root cause'', lit ''reason''],
           lit '' '', alts [lit ''is'', lit ''was'']],
     lit ''now I understand'',
     lit ''that's because'',
     lit ''the fix is'',
     lit ''resolved'',
     lit ''working now'',
     lit ''successfully'']"

definition INTENT_PATTERNS :: "(string \<times> rx list) list" where
  "INTENT_PATTERNS =
    [(''execution'',
      [lit ''implement'',
       seqs [WordB, lit ''build'', WordB],
       seqs [WordB, lit ''deploy'', WordB],
       seqs [WordB, lit ''fix'', WordB],
       seqs [WordB, lit ''create'', WordB],
       seqs [WordB, lit ''update'', WordB],
       seqs [WordB, lit ''add'', WordB],
       seqs [WordB, lit ''modify'', WordB],
       seqs [WordB, lit ''refactor'', WordB],
       seqs [WordB, lit ''migrate'', WordB],
       lit ''resume work'',
       seqs [lit ''continue'', Star Dot, lit ''work''],
       seqs [lit ''executing'', Opt Dot, lit ''plan''],
       seqs [lit ''execute'', Opt Dot, lit ''plan''],
       seqs [lit ''subagent'', Dot, lit ''driven''],
       lit ''<command-message>fix</command-message>'']),
     (''planning'',
      [seqs [WordB, lit ''plan'', WordB],
       lit ''brainstorm'',
       lit ''discuss'',
       lit ''what if'',
       lit ''how should'',
       lit ''let's think'',
       lit ''strategy'',
       lit ''approach'',
       seqs [lit ''writing'', Opt Dot, lit ''plan''],
       lit ''<command-message>superpowers:brainstorm'',
       lit ''<command-message>superpowers:writing'']),
     (''debug'',
      [lit ''not working'',
       lit ''broken'',
       lit ''failing'',
       seqs [WordB, lit ''error'', WordB],
       lit ''bug'',
       lit ''crash'',
       lit ''stuck'',
       lit ''still failing'',
       seqs [lit ''why '', alts [lit ''is'', lit ''does'', lit ''isn'']],
       lit ''<command-message>fix'']),
     (''config'',
      [seqs [WordB, lit ''connect'', WordB],
       seqs [WordB, lit ''install'', WordB],
       seqs [WordB, lit ''configure'', WordB],
       seqs [lit ''set'', Opt Dot, lit ''up''],
       seqs [lit ''api'', Opt Dot, lit ''key''],
       lit ''auth'',
       lit ''credential'',
       lit ''mcp'',
       seqs [Chr CHR ''.'', lit ''env'', WordB],
       lit ''salesforce-connect'']),
     (''research'',
      [lit ''research'',
       lit ''figure out'',
       lit ''how does'',
       lit ''what is'',
       lit ''investigate'',
       lit ''explore'',
       lit ''look into'',
       lit ''can we use'',
       lit ''understand'']),
     (''review'',
      [seqs [WordB, lit ''review'', WordB],
       lit ''look at'',
       seqs [lit ''check'', Star Dot, lit ''status''],
       seqs [lit ''what'', Star Dot, alts [lit ''state'', lit ''progress'']],
       seqs [lit ''where'', Star Dot, lit ''left off''],
       lit ''audit'',
       seqs [lit ''CLAUDE'', Chr CHR ''.'', lit ''MD''],
       seqs [lit ''CLAUDE'', Chr CHR ''.'', lit ''md'']])]"

section \<open>Intent detection\<close>

text \<open>
  \<open>max(scores, key=scores.get)\<close> walks the dictionary in insertion order and keeps the
  first key whose value no later key exceeds.
\<close>

fun max_by_score :: "string \<times> nat \<Rightarrow> (string \<times> nat) list \<Rightarrow> string \<times> nat" where
  "max_by_score best [] = best"
| "max_by_score best (x # xs) = max_by_score (if snd best < snd x then x else best) xs"

definition intent_score :: "string \<Rightarrow> rx list \<Rightarrow> nat" where
  "intent_score text patterns = length (filter (\<lambda>p. re_search True p text) patterns)"

definition intent_scores :: "string \<Rightarrow> (string \<times> nat) list" where
  "intent_scores text =
     filter (\<lambda>(intent, score). 0 < score)
       (map (\<lambda>(intent, patterns). (intent, intent_score text patterns)) INTENT_PATTERNS)"

definition detect_intent :: "string \<Rightarrow> string" where
  "detect_intent first_message =
     (if first_message = [] then ''unknown''
      else let text = strip (lower first_message) in
        if text \<in> set [''warmup'', ''say hello'', ''tui'', ''think high''] then ''startup''
        else if startswith text ''# soul'' then ''startup''
        else if startswith text ''<command-name>/clear'' then ''continuation''
        else if startswith text ''<command-message>resume'' then ''execution''
        else if startswith text ''<command-message>tickets'' then ''review''
        else if startswith text ''<command-message>plugin'' then ''config''
        else if contains text ''read the latest session'' \<or> contains text ''read the latest_session''
          then ''startup''
        else (case intent_scores text of
                [] \<Rightarrow> ''unknown''
              | s # ss \<Rightarrow> fst (max_by_score s ss)))"

definition check_patterns :: "string \<Rightarrow> rx list \<Rightarrow> bool" where
  "check_patterns text patterns = list_ex (\<lambda>p. re_search False p (lower text)) patterns"

section \<open>JSON values and Python errors\<close>

text \<open>
  A line of a session log, once \<open>json.loads\<close> has parsed it, is a JSON value. Numbers
  are integers here. An object is its list of members, read with \<open>map_of\<close>.
\<close>

datatype jvalue =
    JNull
  | JBool bool
  | JNum int
  | JStr string
  | JArr "jvalue list"
  | JObj "(string \<times> jvalue) list"

datatype error = AttributeError | TypeError | IndexError | ReadError

text \<open>\<open>d.get(k, dflt)\<close> on a dictionary, and on any value: only a dictionary has \<open>get\<close>.\<close>

definition dict_get :: "(string \<times> jvalue) list \<Rightarrow> string \<Rightarrow> jvalue \<Rightarrow> jvalue" where
  "dict_get d k dflt = (case map_of d k of Some v \<Rightarrow> v | None \<Rightarrow> dflt)"

definition py_get :: "jvalue \<Rightarrow> string \<Rightarrow> jvalue \<Rightarrow> error + jvalue" where
  "py_get obj k dflt = (case obj of JObj d \<Rightarrow> Inr (dict_get d k dflt) | _ \<Rightarrow> Inl AttributeError)"

text \<open>
  Python's \<open>==\<close> on the values a set can hold: \<open>True == 1\<close> and \<open>False == 0\<close>;
  otherwise equal values are the same value.
\<close>

fun py_eq :: "jvalue \<Rightarrow> jvalue \<Rightarrow> bool" where
  "py_eq (JBool b) (JNum n) = (n = (if b then 1 else 0))"
| "py_eq (JNum n) (JBool b) = (n = (if b then 1 else 0))"
| "py_eq x y = (x = y)"

fun hashable :: "jvalue \<Rightarrow> bool" where
  "hashable (JArr xs) = False"
| "hashable (JObj d) = False"
| "hashable v = True"

text \<open>
  \<open>s.update(names)\<close> on a set: the names are added one by one, and a list or a
  dictionary among them raises TypeError after the names before it have been added.
\<close>

fun set_update :: "jvalue list \<Rightarrow> jvalue list \<Rightarrow> jvalue list \<times> error option" where
  "set_update s [] = (s, None)"
| "set_update s (n # ns) =
     (if hashable n then set_update (if list_ex (py_eq n) s then s else s @ [n]) ns
      else (s, Some TypeError))"

text \<open>
  \<open>sorted\<close> on a set raises TypeError when it has to compare two values that \<open><\<close>
  does not order: numbers (and booleans) are ordered among themselves, strings among
  themselves, and nothing else.
\<close>

datatype sort_class = Numbers | Strings | Unordered

fun sort_class_of :: "jvalue \<Rightarrow> sort_class" where
  "sort_class_of (JBool b) = Numbers"
| "sort_class_of (JNum n) = Numbers"
| "sort_class_of (JStr s) = Strings"
| "sort_class_of v = Unordered"

definition comparable :: "jvalue \<Rightarrow> jvalue \<Rightarrow> bool" where
  "comparable x y \<longleftrightarrow> sort_class_of x \<noteq> Unordered \<and> sort_class_of x = sort_class_of y"

definition sorted_ok :: "jvalue list \<Rightarrow> bool" where
  "sorted_ok s \<longleftrightarrow> length s \<le> 1 \<or> list_all (\<lambda>x. list_all (comparable x) s) s"

section \<open>Message classification\<close>

text \<open>\<open>" ".join(parts)\<close>: TypeError when a part is not a string.\<close>

fun join_parts :: "jvalue list \<Rightarrow> error + string" where
  "join_parts [] = Inr []"
| "join_parts [JStr s] = Inr s"
| "join_parts (JStr s # ps) =
     (case join_parts ps of Inl e \<Rightarrow> Inl e | Inr r \<Rightarrow> Inr (s @ '' '' @ r))"
| "join_parts (p # ps) = Inl TypeError"

fun text_parts :: "jvalue list \<Rightarrow> jvalue list" where
  "text_parts [] = []"
| "text_parts (JObj d # bs) =
     (if dict_get d ''type'' JNull = JStr ''text''
      then dict_get d ''text'' (JStr []) # text_parts bs
      else text_parts bs)"
| "text_parts (b # bs) = text_parts bs"

text \<open>\<open>msg.get("message", {}).get("content", "")\<close>\<close>

definition message_content :: "jvalue \<Rightarrow> error + jvalue" where
  "message_content msg =
     (case py_get msg ''message'' (JObj []) of
        Inl e \<Rightarrow> Inl e
      | Inr m \<Rightarrow> py_get m ''content'' (JStr []))"

text \<open>
  \<open>py_str\<close> stands for Python's \<open>str\<close> on a content that is neither a string nor a
  list (a number, \<open>None\<close>, a boolean or a dictionary); it is a parameter of the model.
\<close>

definition get_text_content :: "(jvalue \<Rightarrow> string) \<Rightarrow> jvalue \<Rightarrow> error + string" where
  "get_text_content py_str msg =
     (case message_content msg of
        Inl e \<Rightarrow> Inl e
      | Inr content \<Rightarrow>
          (case content of
             JStr s \<Rightarrow> Inr s
           | JArr blocks \<Rightarrow> join_parts (text_parts blocks)
           | _ \<Rightarrow> Inr (py_str content)))"

fun block_tools :: "jvalue \<Rightarrow> jvalue list" where
  "block_tools (JObj d) =
     (if dict_get d ''type'' JNull = JStr ''toolCall'' then [dict_get d ''name'' (JStr ''unknown'')]
      else if dict_get d ''type'' JNull = JStr ''tool_use'' then [dict_get d ''name'' (JStr ''unknown'')]
      else [])"
| "block_tools b = []"

definition extract_tool_names :: "jvalue \<Rightarrow> jvalue list" where
  "extract_tool_names content =
     (case content of JArr blocks \<Rightarrow> concat (map block_tools blocks) | _ \<Rightarrow> [])"

text \<open>
  The classification step of \<open>process_session\<close> (the flags start False; an assistant
  message gets the three assistant flags, a user message the correction flag). The result
  is \<open>(has_error, is_retry, is_correction, is_discovery)\<close>.
\<close>

definition classify :: "string \<Rightarrow> string \<Rightarrow> bool \<times> bool \<times> bool \<times> bool" where
  "classify msg_type text =
     (if msg_type = ''assistant'' then
        (check_patterns text ERROR_PATTERNS, check_patterns text RETRY_PATTERNS, False,
         check_patterns text DISCOVERY_PATTERNS)
      else if msg_type = ''user'' then
        (False, False, check_patterns text CORRECTION_PATTERNS, False)
      else (False, False, False, False))"

section \<open>Sessions and messages\<close>

text \<open>
  The session dictionary and the message dictionaries of \<open>process_session\<close>. The keys
  \<open>intent\<close> and \<open>struggle_score\<close> are absent until the file has been read. Of the
  columns that no operation here reads, \<open>source\<close>, \<open>size_bytes\<close>, \<open>created_at\<close>,
  \<open>duration_minutes\<close>, \<open>domain\<close> and \<open>ingested_at\<close> are left out; \<open>unique_tools\<close>
  holds the elements of the set, not their JSON text. A modification time stands for the
  ISO text printed from it, and a flag for the 0 or 1 stored for it.
\<close>

record session =
  id_s :: string
  project :: string
  session_id :: string
  first_message :: "string option"
  message_count :: int
  user_message_count :: int
  assistant_message_count :: int
  tool_call_count :: int
  error_count :: int
  retry_count :: int
  correction_count :: int
  unique_tools :: "jvalue list"
  modified_at :: int
  raw_path :: string
  intent :: "string option"
  struggle_score :: "real option"

record message =
  seq :: int
  role :: string
  timestamp :: jvalue
  content_preview :: string
  tool_names :: "jvalue list option"
  m_tool_call_count :: int
  has_error :: bool
  is_retry :: bool
  is_correction :: bool
  is_discovery :: bool

definition compute_struggle_score :: "session \<Rightarrow> real" where
  "compute_struggle_score s =
     (let intent_v = (case intent s of None \<Rightarrow> ''unknown'' | Some i \<Rightarrow> i);
          errors = real_of_int (error_count s);
          retries = real_of_int (retry_count s);
          corrections = real_of_int (correction_count s)
      in if intent_v = ''execution'' then errors * 2 + retries * 2 + corrections * 3
         else if intent_v = ''planning'' then corrections * 3 + retries * 0.25
         else if intent_v = ''debug'' then retries * 1 + corrections * 3
         else if intent_v = ''config'' then retries * 2 + errors * 1
         else if intent_v = ''research'' then corrections * 3
         else if intent_v = ''review'' then corrections * 2 + retries * 0.5
         else if intent_v = ''startup'' then 0
         else if intent_v = ''continuation'' then errors * 2 + retries * 2 + corrections * 3
         else errors + retries + corrections * 2)"

section \<open>Reading one session file\<close>

text \<open>
  What the loop \<open>for line in f\<close> meets: a blank line, a line \<open>json.loads\<close> rejects, a
  parsed line, or a failure of the read itself (\<open>open\<close> or the decoding of the next
  line raises; nothing after it is read).
\<close>

datatype fline = Blank | Malformed | Json jvalue | ReadFails

text \<open>
  \<open>hashable_names l\<close>: no tool name on the line \<open>l\<close> is a list or a dictionary (in the logs
  a tool name is a string).
\<close>

definition hashable_names :: "fline \<Rightarrow> bool" where
  "hashable_names l =
     (case l of
        Json obj \<Rightarrow>
          (case message_content obj of
             Inl e \<Rightarrow> True
           | Inr content \<Rightarrow> list_all hashable (extract_tool_names content))
      | _ \<Rightarrow> True)"

record artifact =
  projdir :: string
  fname :: string
  fpath :: string
  st_mtime :: int
  file_lines :: "fline list"

record loop_state =
  sess :: session
  msgs :: "message list"
  next_seq :: int

text \<open>
  The first user message and the aggregates of the session, lines 417 to 435: what the
  loop body does to the session dictionary before it touches the set of tools.
\<close>

definition update_aggregates ::
  "string \<Rightarrow> string \<Rightarrow> jvalue list \<Rightarrow> bool \<Rightarrow> bool \<Rightarrow> bool \<Rightarrow> session \<Rightarrow> session" where
  "update_aggregates msg_type text names err retry corr s0 =
     (let s1 = (if msg_type = ''user'' \<and> first_message s0 = None
                   \<and> \<not> startswith text ''<local-command-caveat>''
                then s0\<lparr>first_message := Some (take 300 text)\<rparr> else s0);
          s2 = s1\<lparr>message_count := message_count s1 + 1\<rparr>;
          s3 = (if msg_type = ''user''
                then s2\<lparr>user_message_count := user_message_count s2 + 1\<rparr>
                else s2\<lparr>assistant_message_count := assistant_message_count s2 + 1\<rparr>);
          s4 = s3\<lparr>tool_call_count := tool_call_count s3 + int (length names)\<rparr>;
          s5 = (if err then s4\<lparr>error_count := error_count s4 + 1\<rparr> else s4);
          s6 = (if retry then s5\<lparr>retry_count := retry_count s5 + 1\<rparr> else s5)
      in if corr then s6\<lparr>correction_count := correction_count s6 + 1\<rparr> else s6)"

text \<open>
  The part of the loop body after the text and the tool names are known: lines 404 to 450.
  The set update is the one statement of it that can raise; it comes after the counters
  and before the append.
\<close>

definition record_message ::
  "(string \<times> jvalue) list \<Rightarrow> string \<Rightarrow> string \<Rightarrow> jvalue list \<Rightarrow> loop_state
     \<Rightarrow> loop_state \<times> error option" where
  "record_message obj msg_type text names st =
     (case classify msg_type text of (err, retry, corr, disc) \<Rightarrow>
        let s7 = update_aggregates msg_type text names err retry corr (sess st)
        in case set_update (unique_tools s7) names of
             (tools, Some e) \<Rightarrow> (st\<lparr>sess := s7\<lparr>unique_tools := tools\<rparr>\<rparr>, Some e)
           | (tools, None) \<Rightarrow>
               (st\<lparr>sess := s7\<lparr>unique_tools := tools\<rparr>,
                   msgs := msgs st @
                     [\<lparr>seq = next_seq st, role = msg_type,
                       timestamp = dict_get obj ''timestamp'' (JStr []),
                       content_preview = take 300 text,
                       tool_names = (if names = [] then None else Some names),
                       m_tool_call_count = int (length names),
                       has_error = err, is_retry = retry, is_correction = corr,
                       is_discovery = disc\<rparr>],
                   next_seq := next_seq st + 1\<rparr>, None))"

text \<open>
  One turn of the loop. The result is the state after it and the exception that left the
  loop, if one did.
\<close>

definition process_line ::
  "(jvalue \<Rightarrow> string) \<Rightarrow> fline \<Rightarrow> loop_state \<Rightarrow> loop_state \<times> error option" where
  "process_line py_str line st =
     (case line of
        Blank \<Rightarrow> (st, None)
      | Malformed \<Rightarrow> (st, None)
      | ReadFails \<Rightarrow> (st, Some ReadError)
      | Json obj \<Rightarrow>
          (case obj of
             JObj d \<Rightarrow>
               (case dict_get d ''type'' JNull of
                  JStr msg_type \<Rightarrow>
                    if msg_type \<noteq> ''user'' \<and> msg_type \<noteq> ''assistant'' then (st, None)
                    else
                      (case get_text_content py_str obj of
                         Inl e \<Rightarrow> (st, Some e)
                       | Inr text \<Rightarrow>
                           if msg_type = ''assistant'' then
                             (case message_content obj of
                                Inl e \<Rightarrow> (st, Some e)
                              | Inr raw_content \<Rightarrow>
                                  record_message d msg_type text (extract_tool_names raw_content) st)
                           else record_message d msg_type text [] st)
                | _ \<Rightarrow> (st, None))
           | _ \<Rightarrow> (st, Some AttributeError)))"

text \<open>
  The loop inside \<open>try\<close>: an exception ends it, and \<open>except\<close> prints it and goes on.
  The result is the state the loop leaves and the exception printed, if any.
\<close>

fun read_lines ::
  "(jvalue \<Rightarrow> string) \<Rightarrow> fline list \<Rightarrow> loop_state \<Rightarrow> loop_state \<times> error option" where
  "read_lines py_str [] st = (st, None)"
| "read_lines py_str (l # ls) st =
     (case process_line py_str l st of
        (st', None) \<Rightarrow> read_lines py_str ls st'
      | (st', Some e) \<Rightarrow> (st', Some e))"

definition new_session :: "artifact \<Rightarrow> string \<Rightarrow> string \<Rightarrow> session" where
  "new_session a proj sid =
     \<lparr>id_s = ''claude-code:'' @ sid, project = proj, session_id = sid,
      first_message = None, message_count = 0, user_message_count = 0,
      assistant_message_count = 0, tool_call_count = 0, error_count = 0, retry_count = 0,
      correction_count = 0, unique_tools = [], modified_at = st_mtime a, raw_path = fpath a,
      intent = None, struggle_score = None\<rparr>"

text \<open>
  \<open>process_session\<close>; \<open>Inl\<close> is an exception that leaves the function: the
  \<open>sorted\<close> after the loop is outside \<open>try\<close>.
\<close>

definition process_session ::
  "(jvalue \<Rightarrow> string) \<Rightarrow> artifact \<Rightarrow> string \<Rightarrow> string \<Rightarrow> error + session \<times> message list" where
  "process_session py_str a proj sid =
     (let st = fst (read_lines py_str (file_lines a)
                      \<lparr>sess = new_session a proj sid, msgs = [], next_seq = 0\<rparr>);
          s0 = sess st
      in if \<not> sorted_ok (unique_tools s0) then Inl TypeError
         else
           let s1 = s0\<lparr>intent :=
                        Some (detect_intent (case first_message s0 of None \<Rightarrow> [] | Some m \<Rightarrow> m))\<rparr>;
               s2 = s1\<lparr>struggle_score := Some (compute_struggle_score s1)\<rparr>
           in Inr (s2, msgs st))"

section \<open>The session store and the ingestion driver\<close>

text \<open>
  A row of the \<open>messages\<close> table is a message with the id of its session.
  The schema file is not part of the sources. Modelled from the spec: the \<open>sessions\<close>
  table has the session id as its primary key, so \<open>INSERT OR REPLACE\<close> removes the row
  with the same id; the \<open>messages\<close> table has no constraint that an insert could violate.
\<close>

record message_row = message +
  m_session_id :: string

record db =
  sessions :: "session list"
  messages :: "message_row list"

definition to_row :: "string \<Rightarrow> message \<Rightarrow> message_row" where
  "to_row sid m =
     \<lparr>seq = seq m, role = role m, timestamp = timestamp m, content_preview = content_preview m,
      tool_names = tool_names m, m_tool_call_count = m_tool_call_count m,
      has_error = has_error m, is_retry = is_retry m, is_correction = is_correction m,
      is_discovery = is_discovery m, m_session_id = sid\<rparr>"

definition insert_or_replace_session :: "db \<Rightarrow> session \<Rightarrow> db" where
  "insert_or_replace_session d s =
     d\<lparr>sessions := filter (\<lambda>r. id_s r \<noteq> id_s s) (sessions d) @ [s]\<rparr>"

definition delete_messages :: "db \<Rightarrow> string \<Rightarrow> db" where
  "delete_messages d sid = d\<lparr>messages := filter (\<lambda>m. m_session_id m \<noteq> sid) (messages d)\<rparr>"

definition insert_message :: "string \<Rightarrow> db \<Rightarrow> message \<Rightarrow> db" where
  "insert_message sid d m = d\<lparr>messages := messages d @ [to_row sid m]\<rparr>"

text \<open>The upsert of the session row and the replacement of its messages: lines 512 to 548.\<close>

definition store_session :: "db \<Rightarrow> session \<Rightarrow> message list \<Rightarrow> db" where
  "store_session d s ms =
     foldl (insert_message (id_s s)) (delete_messages (insert_or_replace_session d s) (id_s s)) ms"

fun split_on :: "char \<Rightarrow> string \<Rightarrow> string list" where
  "split_on c [] = [[]]"
| "split_on c (x # xs) =
     (if x = c then [] # split_on c xs
      else (case split_on c xs of p # ps \<Rightarrow> (x # p) # ps | [] \<Rightarrow> [[x]]))"

fun join_with :: "string \<Rightarrow> string list \<Rightarrow> string" where
  "join_with sep [] = []"
| "join_with sep [p] = p"
| "join_with sep (p # ps) = p @ sep @ join_with sep ps"

definition decode_project_name :: "string \<Rightarrow> string" where
  "decode_project_name dirname =
     (let parts = split_on CHR ''-'' dirname
      in if 3 < length parts then join_with ''-'' (drop (length parts - 2) parts) else dirname)"

text \<open>\<open>fname.replace(".jsonl", "")\<close>\<close>

fun remove_jsonl :: "string \<Rightarrow> string" where
  "remove_jsonl [] = []"
| "remove_jsonl (c # cs) =
     (if startswith (c # cs) ''.jsonl'' then remove_jsonl (drop 5 cs) else c # remove_jsonl cs)"

text \<open>
  The dictionary \<open>existing\<close>: path to stored modification time, a later row replacing an
  earlier one with the same path; empty under \<open>force\<close>.
\<close>

definition existing_of :: "db \<Rightarrow> bool \<Rightarrow> string \<Rightarrow> int option" where
  "existing_of d force =
     (if force then Map.empty
      else map_of (rev (map (\<lambda>s. (raw_path s, modified_at s)) (sessions d))))"

text \<open>
  The four \<open>continue\<close> tests of the loop over the files, in the source's order: the
  project filter, the file name, the cutoff, and the freshness check.
\<close>

definition skips ::
  "string option \<Rightarrow> int option \<Rightarrow> (string \<Rightarrow> int option) \<Rightarrow> artifact \<Rightarrow> bool" where
  "skips project_filter cutoff existing a \<longleftrightarrow>
     (case project_filter of
        None \<Rightarrow> False
      | Some f \<Rightarrow> f \<noteq> [] \<and> \<not> contains (lower (decode_project_name (projdir a))) (lower f))
     \<or> startswith (fname a) ''CLAUDE'' \<or> \<not> endswith (fname a) ''.jsonl''
     \<or> (case cutoff of None \<Rightarrow> False | Some c \<Rightarrow> st_mtime a < c)
     \<or> existing (fpath a) = Some (st_mtime a)"

text \<open>
  The loop over the files that \<open>glob\<close> lists. \<open>Inl\<close> is an exception that leaves
  \<open>ingest\<close> before \<open>db.commit()\<close>: nothing of the run is stored.
\<close>

fun ingest_files ::
  "(jvalue \<Rightarrow> string) \<Rightarrow> string option \<Rightarrow> int option \<Rightarrow> (string \<Rightarrow> int option)
     \<Rightarrow> artifact list \<Rightarrow> db \<Rightarrow> error + db" where
  "ingest_files py_str project_filter cutoff existing [] d = Inr d"
| "ingest_files py_str project_filter cutoff existing (a # as) d =
     (if skips project_filter cutoff existing a
      then ingest_files py_str project_filter cutoff existing as d
      else
        (case process_session py_str a (decode_project_name (projdir a)) (remove_jsonl (fname a)) of
           Inl e \<Rightarrow> Inl e
         | Inr (s, ms) \<Rightarrow>
             ingest_files py_str project_filter cutoff existing as (store_session d s ms)))"

definition ingest ::
  "(jvalue \<Rightarrow> string) \<Rightarrow> int option \<Rightarrow> string option \<Rightarrow> bool \<Rightarrow> artifact list \<Rightarrow> db
     \<Rightarrow> error + db" where
  "ingest py_str cutoff project_filter force files d =
     ingest_files py_str project_filter cutoff (existing_of d force) files d"

section \<open>The signal extractors of \<open>strategies/extract.py\<close>\<close>

text \<open>
  The extractors are modelled up to the text they print: each returns the sessions and the
  evidence it would print. \<open>ORDER BY\<close> is a stable sort of the rows in table order.
\<close>

definition score_of :: "session \<Rightarrow> real" where
  "score_of s = (case struggle_score s of None \<Rightarrow> 0 | Some x \<Rightarrow> x)"

text \<open>The session query of strategies A, B and D.\<close>

definition struggle_sessions :: "string \<Rightarrow> db \<Rightarrow> session list" where
  "struggle_sessions proj d =
     take 10 (sort_key (\<lambda>s. - score_of s)
       (filter (\<lambda>s. project s = proj
                 \<and> (case struggle_score s of None \<Rightarrow> False | Some x \<Rightarrow> 5 < x)
                 \<and> (case intent s of None \<Rightarrow> False
                     | Some i \<Rightarrow> i \<in> set [''execution'', ''continuation'', ''debug'']))
          (sessions d)))"

text \<open>The session query of strategy C.\<close>

definition correction_sessions :: "string \<Rightarrow> db \<Rightarrow> session list" where
  "correction_sessions proj d =
     take 10 (sort_key (\<lambda>s. - correction_count s)
       (filter (\<lambda>s. project s = proj \<and> 0 < correction_count s) (sessions d)))"

subsection \<open>A: retry chains\<close>

definition retry_rows :: "db \<Rightarrow> string \<Rightarrow> (int \<times> string) list" where
  "retry_rows d sid =
     map (\<lambda>m. (seq m, content_preview m))
       (sort_key seq
          (filter (\<lambda>m. m_session_id m = sid \<and> is_retry m \<and> role m = ''assistant'') (messages d)))"

text \<open>One turn of the loop over \<open>range(1, len(retries))\<close>; the state is \<open>(chains, current_chain)\<close>.\<close>

definition chain_step ::
  "int \<Rightarrow> (int \<times> string) list \<Rightarrow> nat
     \<Rightarrow> (int \<times> string) list list \<times> (int \<times> string) list
     \<Rightarrow> (int \<times> string) list list \<times> (int \<times> string) list" where
  "chain_step min_chain retries i st =
     (case st of (chains_v, current_chain) \<Rightarrow>
        if fst (retries ! i) - fst (retries ! (i - 1)) \<le> 5
        then (chains_v, current_chain @ [retries ! i])
        else (if min_chain \<le> int (length current_chain) then chains_v @ [current_chain] else chains_v,
              [retries ! i]))"

text \<open>
  The chains of one session. A session with fewer retries than \<open>min_chain\<close> is passed
  over; \<open>retries[0]\<close> raises IndexError on an empty list.
\<close>

definition find_chains :: "int \<Rightarrow> (int \<times> string) list \<Rightarrow> error + (int \<times> string) list list" where
  "find_chains min_chain retries =
     (if int (length retries) < min_chain then Inr []
      else
        (case retries of
           [] \<Rightarrow> Inl IndexError
         | r0 # rest \<Rightarrow>
             (case fold (chain_step min_chain retries) [1..<length retries] ([], [r0]) of
                (chains_v, current_chain) \<Rightarrow>
                  Inr (if min_chain \<le> int (length current_chain)
                       then chains_v @ [current_chain] else chains_v))))"

fun retry_chains_of ::
  "int \<Rightarrow> db \<Rightarrow> session list \<Rightarrow> error + (session \<times> (int \<times> string) list) list" where
  "retry_chains_of min_chain d [] = Inr []"
| "retry_chains_of min_chain d (s # ss) =
     (case find_chains min_chain (retry_rows d (id_s s)) of
        Inl e \<Rightarrow> Inl e
      | Inr chains_v \<Rightarrow>
          (case retry_chains_of min_chain d ss of
             Inl e \<Rightarrow> Inl e
           | Inr out \<Rightarrow> Inr (map (Pair s) chains_v @ out)))"

definition strategy_a_retry_chains ::
  "string \<Rightarrow> int \<Rightarrow> db \<Rightarrow> error + (session \<times> (int \<times> string) list) list" where
  "strategy_a_retry_chains proj min_chain d = retry_chains_of min_chain d (struggle_sessions proj d)"

subsection \<open>B: error and resolution pairs\<close>

definition flagged_rows :: "db \<Rightarrow> string \<Rightarrow> message_row list" where
  "flagged_rows d sid =
     sort_key seq (filter (\<lambda>m. m_session_id m = sid \<and> (has_error m \<or> is_discovery m)) (messages d))"

text \<open>The two nested loops: for each error the first discovery in the window, then \<open>break\<close>.\<close>

definition find_pairs ::
  "(int \<times> string) list \<Rightarrow> (int \<times> string) list \<Rightarrow> (int \<times> string \<times> int \<times> string) list" where
  "find_pairs errors discoveries =
     concat (map (\<lambda>(err_seq, err_text).
        (case find (\<lambda>(disc_seq, disc_text). 0 < disc_seq - err_seq \<and> disc_seq - err_seq \<le> 10)
                discoveries of
           None \<Rightarrow> []
         | Some (disc_seq, disc_text) \<Rightarrow> [(err_seq, err_text, disc_seq, disc_text)])) errors)"

definition session_pairs :: "db \<Rightarrow> string \<Rightarrow> (int \<times> string \<times> int \<times> string) list" where
  "session_pairs d sid =
     (let rows = flagged_rows d sid;
          errors = map (\<lambda>m. (seq m, content_preview m)) (filter has_error rows);
          discoveries = map (\<lambda>m. (seq m, content_preview m)) (filter is_discovery rows)
      in find_pairs errors discoveries)"

definition strategy_b_error_resolution ::
  "string \<Rightarrow> db \<Rightarrow> (session \<times> (int \<times> string \<times> int \<times> string) list) list" where
  "strategy_b_error_resolution proj d =
     concat (map (\<lambda>s. let pairs = session_pairs d (id_s s) in if pairs = [] then [] else [(s, pairs)])
               (struggle_sessions proj d))"

subsection \<open>C: corrections with context\<close>

text \<open>One side of the \<open>LEFT JOIN\<close>: the previews at a sequence number, or one NULL.\<close>

definition joined_previews :: "db \<Rightarrow> string \<Rightarrow> int \<Rightarrow> string option list" where
  "joined_previews d sid k =
     (case filter (\<lambda>m. m_session_id m = sid \<and> seq m = k) (messages d) of
        [] \<Rightarrow> [None]
      | ms \<Rightarrow> map (\<lambda>m. Some (content_preview m)) ms)"

definition correction_rows ::
  "db \<Rightarrow> string \<Rightarrow> (int \<times> string \<times> string option \<times> string option) list" where
  "correction_rows d sid =
     concat (map (\<lambda>m.
        concat (map (\<lambda>prev. map (\<lambda>next. (seq m, content_preview m, prev, next))
                              (joined_previews d sid (seq m + 1)))
                  (joined_previews d sid (seq m - 1))))
       (sort_key seq (filter (\<lambda>m. m_session_id m = sid \<and> is_correction m) (messages d))))"

definition strategy_c_corrections ::
  "string \<Rightarrow> db \<Rightarrow> (session \<times> (int \<times> string \<times> string option \<times> string option) list) list" where
  "strategy_c_corrections proj d =
     concat (map (\<lambda>s. let corrections = correction_rows d (id_s s)
                       in if corrections = [] then [] else [(s, corrections)])
               (correction_sessions proj d))"

subsection \<open>D: tool repetition\<close>

text \<open>
  A row of the query is \<open>(seq, tool_names, content_preview)\<close>; the column
  \<open>tool_names\<close> holds the JSON text of a list, or NULL.
\<close>

type_synonym tool_row = "int \<times> jvalue list option \<times> string"

definition tool_rows :: "db \<Rightarrow> string \<Rightarrow> tool_row list" where
  "tool_rows d sid =
     map (\<lambda>m. (seq m, tool_names m, content_preview m))
       (sort_key seq (filter (\<lambda>m. m_session_id m = sid \<and> 0 < m_tool_call_count m) (messages d)))"

definition tools_of :: "tool_row \<Rightarrow> jvalue list" where
  "tools_of r = (case fst (snd r) of None \<Rightarrow> [] | Some ts \<Rightarrow> ts)"

text \<open>The inner loop over \<open>j\<close>: the chain so far, and the rows from \<open>j\<close> on when it stops.\<close>

fun scan_run ::
  "jvalue \<Rightarrow> tool_row list \<Rightarrow> (int \<times> string) list \<Rightarrow> (int \<times> string) list \<times> tool_row list" where
  "scan_run primary_tool [] chain = (chain, [])"
| "scan_run primary_tool (r # rs) chain =
     (case tools_of r of
        [] \<Rightarrow> scan_run primary_tool rs chain
      | t # ts \<Rightarrow>
          if py_eq t primary_tool then scan_run primary_tool rs (chain @ [(fst r, snd (snd r))])
          else (chain, r # rs))"

text \<open>The outer loop over \<open>i\<close>; after a run it goes on at \<open>max(j, i + 1)\<close>, which is \<open>j\<close>.\<close>

function find_repetitions ::
  "int \<Rightarrow> tool_row list \<Rightarrow> (jvalue \<times> (int \<times> string) list) list" where
  "find_repetitions min_repeats [] = []"
| "find_repetitions min_repeats (r # rs) =
     (case tools_of r of
        [] \<Rightarrow> find_repetitions min_repeats rs
      | primary_tool # ts \<Rightarrow>
          (case scan_run primary_tool rs [(fst r, snd (snd r))] of
             (chain, rest) \<Rightarrow>
               (if min_repeats \<le> int (length chain) then [(primary_tool, chain)] else [])
               @ find_repetitions min_repeats rest))"
  by pat_completeness auto
termination
proof (relation "measure (\<lambda>(m, rs). length rs)", goal_cases)
  case 1
  show ?case by simp
next
  case (2 min_repeats r rs)
  show ?case by simp
next
  case (3 min_repeats r rs primary_tool ts chain rest)
  have "length (snd (scan_run p xs c)) \<le> length xs" for p xs c
    by (induction xs arbitrary: c) (auto split: list.splits intro: le_SucI)
  from this [of primary_tool rs "[(fst r, snd (snd r))]"] 3(2) [symmetric]
  show ?case by simp
qed

definition strategy_d_tool_repetition ::
  "string \<Rightarrow> int \<Rightarrow> db \<Rightarrow> (session \<times> (jvalue \<times> (int \<times> string) list) list) list" where
  "strategy_d_tool_repetition proj min_repeats d =
     concat (map (\<lambda>s. let repetitions = find_repetitions min_repeats (tool_rows d (id_s s))
                       in if repetitions = [] then [] else [(s, repetitions)])
               (struggle_sessions proj d))"

section \<open>Example inputs\<close>

text \<open>
  Concrete log lines, files and stores, used where a property is run on an input: a user
  line with a given text, an assistant line with the text \<open>ok\<close> and one tool call of a
  given name, and a log file of the project directory \<open>demo\<close>.
\<close>

definition user_line :: "string \<Rightarrow> fline" where
  "user_line text =
     Json (JObj [(''type'', JStr ''user''), (''message'', JObj [(''content'', JStr text)])])"

definition tool_line :: "jvalue \<Rightarrow> fline" where
  "tool_line name =
     Json (JObj [(''type'', JStr ''assistant''),
                 (''message'', JObj [(''content'',
                    JArr [JObj [(''type'', JStr ''text''), (''text'', JStr ''ok'')],
                          JObj [(''type'', JStr ''tool_use''), (''name'', name)]])])])"

definition log_file :: "string \<Rightarrow> int \<Rightarrow> fline list \<Rightarrow> artifact" where
  "log_file name t ls =
     \<lparr>projdir = ''demo'', fname = name @ ''.jsonl'', fpath = ''/demo/'' @ name @ ''.jsonl'',
      st_mtime = t, file_lines = ls\<rparr>"

definition no_str :: "jvalue \<Rightarrow> string" where
  "no_str v = []"

definition empty_db :: db where
  "empty_db = \<lparr>sessions = [], messages = []\<rparr>"

text \<open>
  The session and the messages that the two-line file
  \<open>[user_line ''no, fix it'', tool_line (JStr ''Bash'')]\<close> named \<open>s1\<close>, modified at
  time 7, is read into.
\<close>

definition fixed_session :: session where
  "fixed_session =
     \<lparr>id_s = ''claude-code:s1'', project = ''demo'', session_id = ''s1'',
      first_message = Some ''no, fix it'', message_count = 2, user_message_count = 1,
      assistant_message_count = 1, tool_call_count = 1, error_count = 0, retry_count = 0,
      correction_count = 1, unique_tools = [JStr ''Bash''], modified_at = 7,
      raw_path = ''/demo/s1.jsonl'', intent = Some ''execution'', struggle_score = Some 3\<rparr>"

definition fixed_messages :: "message list" where
  "fixed_messages =
     [\<lparr>seq = 0, role = ''user'', timestamp = JStr [], content_preview = ''no, fix it'',
       tool_names = None, m_tool_call_count = 0, has_error = False, is_retry = False,
       is_correction = True, is_discovery = False\<rparr>,
      \<lparr>seq = 1, role = ''assistant'', timestamp = JStr [], content_preview = ''ok'',
       tool_names = Some [JStr ''Bash''], m_tool_call_count = 1, has_error = False,
       is_retry = False, is_correction = False, is_discovery = False\<rparr>]"

definition busy_session :: session where
  "busy_session = fixed_session\<lparr>error_count := 2, struggle_score := Some 7\<rparr>"

definition fixed_db :: db where
  "fixed_db = \<lparr>sessions = [fixed_session], messages = map (to_row ''claude-code:s1'') fixed_messages\<rparr>"

definition busy_db :: db where
  "busy_db = \<lparr>sessions = [busy_session], messages = map (to_row ''claude-code:s1'') fixed_messages\<rparr>"

text \<open>
  A stored assistant message of session \<open>s1\<close> with a sequence number, a preview, the
  flags \<open>has_error\<close>, \<open>is_retry\<close> and \<open>is_discovery\<close>, and its tool names.
\<close>

definition stored_row ::
  "int \<Rightarrow> string \<Rightarrow> bool \<Rightarrow> bool \<Rightarrow> bool \<Rightarrow> jvalue list \<Rightarrow> message_row" where
  "stored_row k preview err retry disc tools =
     \<lparr>seq = k, role = ''assistant'', timestamp = JStr [], content_preview = preview,
      tool_names = (if tools = [] then None else Some tools),
      m_tool_call_count = int (length tools), has_error = err, is_retry = retry,
      is_correction = False, is_discovery = disc, m_session_id = ''claude-code:s1''\<rparr>"

text \<open>An error at sequence 5 and discoveries at sequences 8 and 20.\<close>

definition pairs_db :: db where
  "pairs_db =
     \<lparr>sessions = [busy_session],
      messages = [stored_row 5 ''boom'' True False False [],
                  stored_row 8 ''found'' False False True [],
                  stored_row 20 ''later'' False False True []]\<rparr>"

text \<open>Errors at sequences 1 and 2 and one discovery at sequence 3.\<close>

definition shared_db :: db where
  "shared_db =
     \<lparr>sessions = [busy_session],
      messages = [stored_row 1 ''boom'' True False False [],
                  stored_row 2 ''bang'' True False False [],
                  stored_row 3 ''found'' False False True []]\<rparr>"

text \<open>
  The grouping of extractor A in the spec's words, for comparison with the loop of
  \<open>find_chains\<close>: a retry joins the chain of the retry before it while the gap between
  their sequence numbers is at most 5, and starts a new chain otherwise.
\<close>

fun spec_chains :: "(int \<times> string) list \<Rightarrow> (int \<times> string) list list" where
  "spec_chains [] = []"
| "spec_chains [x] = [[x]]"
| "spec_chains (x # y # xs) =
     (if fst y - fst x \<le> 5
      then (case spec_chains (y # xs) of [] \<Rightarrow> [[x]] | g # gs \<Rightarrow> (x # g) # gs)
      else [x] # spec_chains (y # xs))"

text \<open>Retries of session \<open>s1\<close> at sequences 2, 3, 4, 10, 11, 12 and 13.\<close>

definition retries_db :: db where
  "retries_db =
     \<lparr>sessions = [busy_session],
      messages = map (\<lambda>k. stored_row k ''let me try'' False True False []) [2, 3, 4, 10, 11, 12, 13]\<rparr>"

text \<open>
  \<open>close_steps c\<close>: each retry of the chain \<open>c\<close> is at most 5 sequence numbers after the
  one before it. \<open>far_apart cs\<close>: each chain of \<open>cs\<close> starts more than 5 sequence numbers
  after the end of the chain before it.
\<close>

fun close_steps :: "(int \<times> string) list \<Rightarrow> bool" where
  "close_steps (x # y # xs) = (fst y - fst x \<le> 5 \<and> close_steps (y # xs))"
| "close_steps xs = True"

fun far_apart :: "(int \<times> string) list list \<Rightarrow> bool" where
  "far_apart (c # c' # cs) = (5 < fst (hd c') - fst (last c) \<and> far_apart (c' # cs))"
| "far_apart cs = True"

text \<open>
  The runs of extractor D in the spec's words, for comparison with the loops of
  \<open>find_repetitions\<close>: among the rows that have a tool, a run is a row, whose first tool is
  the anchor, and the rows after it for as long as their first tool is the anchor; the next
  run starts at the first row whose first tool differs.
\<close>

definition first_tool :: "tool_row \<Rightarrow> jvalue option" where
  "first_tool r = (case tools_of r of [] \<Rightarrow> None | t # ts \<Rightarrow> Some t)"

definition anchored :: "jvalue \<Rightarrow> tool_row \<Rightarrow> bool" where
  "anchored anchor r = (case first_tool r of None \<Rightarrow> False | Some t \<Rightarrow> py_eq t anchor)"

definition seq_preview :: "tool_row \<Rightarrow> int \<times> string" where
  "seq_preview r = (fst r, snd (snd r))"

function spec_runs :: "tool_row list \<Rightarrow> (jvalue \<times> (int \<times> string) list) list" where
  "spec_runs [] = []"
| "spec_runs (r # rs) =
     (case first_tool r of
        None \<Rightarrow> spec_runs rs
      | Some anchor \<Rightarrow>
          (anchor, map seq_preview (r # takeWhile (anchored anchor) rs))
          # spec_runs (dropWhile (anchored anchor) rs))"
  by pat_completeness auto
termination
  by (relation "measure length") (auto simp: le_imp_less_Suc length_dropWhile_le)

text \<open>
  Messages of session \<open>s1\<close> at sequences 0 to 6 whose tools are A, A, none, A, B, B, B.
\<close>

definition tools_db :: db where
  "tools_db =
     \<lparr>sessions = [busy_session],
      messages = [stored_row 0 ''m0'' False False False [JStr ''A''],
                  stored_row 1 ''m1'' False False False [JStr ''A''],
                  stored_row 2 ''m2'' False False False [],
                  stored_row 3 ''m3'' False False False [JStr ''A''],
                  stored_row 4 ''m4'' False False False [JStr ''B''],
                  stored_row 5 ''m5'' False False False [JStr ''B''],
                  stored_row 6 ''m6'' False False False [JStr ''B'']]\<rparr>"

text \<open>The same seven messages as rows handed to the loop, the third with no tool.\<close>

definition tool_rows_with_gap :: "tool_row list" where
  "tool_rows_with_gap =
     [(0, Some [JStr ''A''], ''m0''), (1, Some [JStr ''A''], ''m1''), (2, None, ''m2''),
      (3, Some [JStr ''A''], ''m3''), (4, Some [JStr ''B''], ''m4''),
      (5, Some [JStr ''B''], ''m5''), (6, Some [JStr ''B''], ''m6'')]"

text \<open>An assistant line whose content is a plain text.\<close>

definition assistant_line :: "string \<Rightarrow> fline" where
  "assistant_line text =
     Json (JObj [(''type'', JStr ''assistant''), (''message'', JObj [(''content'', JStr text)])])"

section \<open>Evaluation support\<close>

text \<open>
  Bit-level code equations for the character classes, so that evaluation on concrete
  text does not walk the tables above for every character.
\<close>

lemma lower_char_code [code]:
  "lower_char (Char b0 b1 b2 b3 b4 b5 b6 b7) =
     (if \<not> b7 \<and> b6 \<and> \<not> b5 \<and> (b0 \<or> b1 \<or> b2 \<or> b3 \<or> b4) \<and> \<not> (b4 \<and> b3 \<and> (b2 \<or> (b1 \<and> b0)))
      then Char b0 b1 b2 b3 b4 True b6 b7 else Char b0 b1 b2 b3 b4 b5 b6 b7)"
  unfolding lower_char_def
  by (cases b7; cases b6; cases b5; simp; cases b4; cases b3; cases b2; cases b1; cases b0; simp)

lemma is_space_code [code]:
  "is_space (Char b0 b1 b2 b3 b4 b5 b6 b7) =
     (\<not> b7 \<and> \<not> b6 \<and>
       (if b5 then \<not> b0 \<and> \<not> b1 \<and> \<not> b2 \<and> \<not> b3 \<and> \<not> b4
        else if b4 then b3 \<and> b2
        else b3 \<and> (if b2 then \<not> b1 else b0 \<or> b1)))"
  unfolding is_space_def
  by (cases b7; cases b6; simp; cases b5; cases b4; cases b3; cases b2; cases b1; cases b0; simp)

lemma is_word_code [code]:
  "is_word (Char b0 b1 b2 b3 b4 b5 b6 b7) =
     (\<not> b7 \<and>
       (if b6 then ((b0 \<or> b1 \<or> b2 \<or> b3 \<or> b4) \<and> \<not> (b4 \<and> b3 \<and> (b2 \<or> (b1 \<and> b0))))
                    \<or> (\<not> b5 \<and> b4 \<and> b3 \<and> b2 \<and> b1 \<and> b0)
        else b5 \<and> b4 \<and> \<not> (b3 \<and> (b2 \<or> b1))))"
  unfolding is_word_def
  by (cases b7; simp; cases b6; cases b5; cases b4; cases b3; cases b2; cases b1; cases b0; simp)

subsection \<open>The examples, evaluated\<close>

lemma classify_user_fix: "classify ''user'' ''no, fix it'' = (False, False, True, False)"
  by code_simp

lemma classify_assistant_ok: "classify ''assistant'' ''ok'' = (False, False, False, False)"
  by code_simp

lemma detect_intent_fix: "detect_intent ''no, fix it'' = ''execution''"
  by code_simp

lemma decode_demo: "decode_project_name ''demo'' = ''demo''"
  by code_simp

lemma remove_jsonl_s1: "remove_jsonl ''s1.jsonl'' = ''s1''"
  by code_simp

lemmas eval_defs =
  log_file_def user_line_def tool_line_def new_session_def process_session_def process_line_def
  record_message_def update_aggregates_def get_text_content_def message_content_def py_get_def dict_get_def
  extract_tool_names_def sorted_ok_def comparable_def compute_struggle_score_def

lemmas ingest_defs =
  ingest_def skips_def existing_of_def endswith_def store_session_def insert_message_def
  delete_messages_def insert_or_replace_session_def to_row_def empty_db_def

lemma process_session_fixed:
  "process_session no_str (log_file ''s1'' 7 [user_line ''no, fix it'', tool_line (JStr ''Bash'')])
     ''demo'' ''s1'' = Inr (fixed_session, fixed_messages)"
  by (simp add: eval_defs classify_user_fix classify_assistant_ok detect_intent_fix
      fixed_session_def fixed_messages_def)

lemma log_file_sel:
  "projdir (log_file n t ls) = ''demo''" "fname (log_file n t ls) = n @ ''.jsonl''"
  "fpath (log_file n t ls) = ''/demo/'' @ n @ ''.jsonl''" "st_mtime (log_file n t ls) = t"
  "file_lines (log_file n t ls) = ls"
  by (simp_all add: log_file_def)

lemma ingest_fixed:
  "ingest no_str None None False
     [log_file ''s1'' 7 [user_line ''no, fix it'', tool_line (JStr ''Bash'')]] empty_db
   = Inr \<lparr>sessions = [fixed_session], messages = map (to_row ''claude-code:s1'') fixed_messages\<rparr>"
proof -
  have "\<not> skips None None Map.empty
          (log_file ''s1'' 7 [user_line ''no, fix it'', tool_line (JStr ''Bash'')])"
    by (simp add: skips_def endswith_def log_file_sel)
  moreover have "id_s fixed_session = ''claude-code:s1''"
    by (simp add: fixed_session_def)
  ultimately show ?thesis
    using process_session_fixed
    by (simp add: ingest_def existing_of_def empty_db_def log_file_sel decode_demo remove_jsonl_s1
        store_session_def insert_message_def delete_messages_def insert_or_replace_session_def
        fixed_messages_def)
qed

section \<open>The struggle score\<close>

lemma compute_struggle_score_cong:
  "intent s = intent s' \<Longrightarrow> error_count s = error_count s' \<Longrightarrow> retry_count s = retry_count s'
     \<Longrightarrow> correction_count s = correction_count s'
     \<Longrightarrow> compute_struggle_score s = compute_struggle_score s'"
  by (simp add: compute_struggle_score_def)

lemma process_session_score:
  assumes "process_session py_str a proj sid = Inr (s, ms)"
  shows "struggle_score s = Some (compute_struggle_score s)"
proof -
  from assms obtain s1 where s: "s = s1\<lparr>struggle_score := Some (compute_struggle_score s1)\<rparr>"
    by (auto simp: process_session_def Let_def split: if_splits)
  have "compute_struggle_score s = compute_struggle_score s1"
    unfolding s by (rule compute_struggle_score_cong) simp_all
  with s show ?thesis by simp
qed

lemma sessions_store_session:
  "sessions (store_session d s ms) = filter (\<lambda>r. id_s r \<noteq> id_s s) (sessions d) @ [s]"
proof -
  have "sessions (foldl (insert_message k) d0 ms) = sessions d0" for k d0
    by (induction ms arbitrary: d0) (simp_all add: insert_message_def)
  then show ?thesis
    by (simp add: store_session_def delete_messages_def insert_or_replace_session_def)
qed

text \<open>
  Whatever holds of the rows before a run and of every session \<open>process_session\<close> returns
  holds of the rows after the run.
\<close>

lemma ingest_files_sessions_inv:
  assumes "ingest_files py_str pf cutoff existing files d = Inr d'"
    and "\<forall>r\<in>set (sessions d). P r"
    and "\<And>a proj sid s ms. process_session py_str a proj sid = Inr (s, ms) \<Longrightarrow> P s"
  shows "\<forall>r\<in>set (sessions d'). P r"
  using assms(1,2)
proof (induction files arbitrary: d)
  case Nil
  then show ?case by simp
next
  case (Cons a as)
  show ?case
  proof (cases "skips pf cutoff existing a")
    case True
    with Cons show ?thesis by simp
  next
    case False
    with Cons.prems(1) obtain s ms where
      ps: "process_session py_str a (decode_project_name (projdir a)) (remove_jsonl (fname a))
             = Inr (s, ms)"
      and rest: "ingest_files py_str pf cutoff existing as (store_session d s ms) = Inr d'"
      by (auto split: sum.splits)
    have "\<forall>r\<in>set (sessions (store_session d s ms)). P r"
      using Cons.prems(2) assms(3) [OF ps] by (auto simp: sessions_store_session)
    with Cons.IH [OF rest] show ?thesis by blast
  qed
qed

text \<open>
  C4. The struggle score is the table of \<open>compute_struggle_score\<close>: execution and
  continuation sessions score errors * 2 + retries * 2 + corrections * 3, startup sessions
  score 0, unknown sessions score errors * 1 + retries * 1 + corrections * 2; the score
  depends on the intent and the three counters only; and the score of a session that
  \<open>process_session\<close> returns, and of every row in the store after a run of \<open>ingest\<close> on
  a store whose rows had it, is the score recomputed from the row's own intent and counters.
\<close>

theorem struggle_score_table:
  "(intent s1 = Some ''execution'' \<or> intent s1 = Some ''continuation'' \<longrightarrow>
      compute_struggle_score s1 =
        real_of_int (error_count s1) * 2 + real_of_int (retry_count s1) * 2
          + real_of_int (correction_count s1) * 3)
   \<and> (intent s2 = Some ''startup'' \<longrightarrow> compute_struggle_score s2 = 0)
   \<and> (intent s3 = Some ''unknown'' \<longrightarrow>
        compute_struggle_score s3 =
          real_of_int (error_count s3) * 1 + real_of_int (retry_count s3) * 1
            + real_of_int (correction_count s3) * 2)
   \<and> (intent s4 = intent s5 \<and> error_count s4 = error_count s5 \<and> retry_count s4 = retry_count s5
        \<and> correction_count s4 = correction_count s5 \<longrightarrow>
        compute_struggle_score s4 = compute_struggle_score s5)
   \<and> (process_session py_str a proj sid = Inr (s, ms) \<longrightarrow>
        struggle_score s = Some (compute_struggle_score s))
   \<and> ((\<forall>r\<in>set (sessions d). struggle_score r = Some (compute_struggle_score r))
        \<and> ingest py_str cutoff project_filter force files d = Inr d' \<longrightarrow>
        (\<forall>r\<in>set (sessions d'). struggle_score r = Some (compute_struggle_score r)))"
proof -
  have "\<forall>r\<in>set (sessions d'). struggle_score r = Some (compute_struggle_score r)"
    if "\<forall>r\<in>set (sessions d). struggle_score r = Some (compute_struggle_score r)"
      and "ingest py_str cutoff project_filter force files d = Inr d'"
    using that(2) [unfolded ingest_def] that(1)
    by (rule ingest_files_sessions_inv) (rule process_session_score)
  moreover have "compute_struggle_score s4 = compute_struggle_score s5"
    if "intent s4 = intent s5 \<and> error_count s4 = error_count s5 \<and> retry_count s4 = retry_count s5
        \<and> correction_count s4 = correction_count s5"
    using that by (intro compute_struggle_score_cong) simp_all
  ultimately show ?thesis
    by (auto simp: compute_struggle_score_def dest: process_session_score)
qed

theorem struggle_score_table_witness:
  "intent (fixed_session\<lparr>error_count := 1, retry_count := 2\<rparr>) = Some ''execution''
   \<and> compute_struggle_score (fixed_session\<lparr>error_count := 1, retry_count := 2\<rparr>) = 9
   \<and> intent (fixed_session\<lparr>intent := Some ''startup''\<rparr>) = Some ''startup''
   \<and> compute_struggle_score (fixed_session\<lparr>intent := Some ''startup''\<rparr>) = 0
   \<and> intent (fixed_session\<lparr>intent := Some ''unknown'', retry_count := 2\<rparr>) = Some ''unknown''
   \<and> compute_struggle_score (fixed_session\<lparr>intent := Some ''unknown'', retry_count := 2\<rparr>) = 4
   \<and> compute_struggle_score (fixed_session\<lparr>message_count := 5\<rparr>)
       = compute_struggle_score fixed_session
   \<and> process_session no_str
         (log_file ''s1'' 7 [user_line ''no, fix it'', tool_line (JStr ''Bash'')]) ''demo'' ''s1''
       = Inr (fixed_session, fixed_messages)
   \<and> struggle_score fixed_session = Some (compute_struggle_score fixed_session)
   \<and> sessions empty_db = []
   \<and> ingest no_str None None False
         [log_file ''s1'' 7 [user_line ''no, fix it'', tool_line (JStr ''Bash'')]] empty_db
       = Inr \<lparr>sessions = [fixed_session], messages = map (to_row ''claude-code:s1'') fixed_messages\<rparr>"
  using struggle_score_table
    [of "fixed_session\<lparr>error_count := 1, retry_count := 2\<rparr>"
        "fixed_session\<lparr>intent := Some ''startup''\<rparr>"
        "fixed_session\<lparr>intent := Some ''unknown'', retry_count := 2\<rparr>"
        "fixed_session\<lparr>message_count := 5\<rparr>" fixed_session
        no_str "log_file ''s1'' 7 [user_line ''no, fix it'', tool_line (JStr ''Bash'')]"
        "''demo''" "''s1''" fixed_session fixed_messages
        empty_db None None False
        "[log_file ''s1'' 7 [user_line ''no, fix it'', tool_line (JStr ''Bash'')]]"
        "\<lparr>sessions = [fixed_session], messages = map (to_row ''claude-code:s1'') fixed_messages\<rparr>"]
    process_session_fixed ingest_fixed
  by (simp add: fixed_session_def empty_db_def)

section \<open>Which sessions the extractors read\<close>

lemma struggle_sessions_props:
  "s \<in> set (struggle_sessions proj d) \<Longrightarrow>
     s \<in> set (sessions d) \<and> project s = proj \<and> struggle_score s \<noteq> None \<and> 5 < score_of s
     \<and> intent s \<in> {Some ''execution'', Some ''continuation'', Some ''debug''}"
  by (auto simp: struggle_sessions_def score_of_def dest!: in_set_takeD split: option.splits)

lemma struggle_sessions_sorted:
  "sorted_wrt (\<lambda>a b. score_of b \<le> score_of a) (struggle_sessions proj d)"
proof -
  have "sorted (map (\<lambda>s. - score_of s) (sort_key (\<lambda>s. - score_of s) xs))" for xs
    by (rule sorted_sort_key)
  then have "sorted_wrt (\<lambda>a b. score_of b \<le> score_of a) (sort_key (\<lambda>s. - score_of s) xs)" for xs
    by (simp add: sorted_map)
  then show ?thesis
    unfolding struggle_sessions_def by (rule sorted_wrt_take)
qed

lemma correction_sessions_props:
  "s \<in> set (correction_sessions proj d) \<Longrightarrow>
     s \<in> set (sessions d) \<and> project s = proj \<and> 0 < correction_count s"
  by (auto simp: correction_sessions_def dest!: in_set_takeD)

lemma correction_sessions_sorted:
  "sorted_wrt (\<lambda>a b. correction_count b \<le> correction_count a) (correction_sessions proj d)"
proof -
  have "sorted (map (\<lambda>s. - correction_count s) (sort_key (\<lambda>s. - correction_count s) xs))" for xs
    by (rule sorted_sort_key)
  then have "sorted_wrt (\<lambda>a b. correction_count b \<le> correction_count a)
               (sort_key (\<lambda>s. - correction_count s) xs)" for xs
    by (simp add: sorted_map)
  then show ?thesis
    unfolding correction_sessions_def by (rule sorted_wrt_take)
qed

lemma retry_chains_of_sessions:
  "retry_chains_of min_chain d ss = Inr out \<Longrightarrow> fst ` set out \<subseteq> set ss"
proof (induction ss arbitrary: out)
  case Nil
  then show ?case by simp
next
  case (Cons s ss)
  from Cons.prems obtain cs out' where
    "retry_chains_of min_chain d ss = Inr out'" "out = map (Pair s) cs @ out'"
    by (auto split: sum.splits)
  with Cons.IH [of out'] show ?case by auto
qed

text \<open>
  C3 (as amended). The session query of extractors A, B and D returns at most 10 rows of the
  project, each with a struggle score above 5 and an intent among execution, continuation
  and debug, by descending score; the session query of extractor C returns at most 10 rows
  of the project, each with a positive correction count, by descending correction count,
  whatever their score; and every session an extractor reports is a row of its query.
\<close>

theorem extractor_selection:
  "(\<forall>s\<in>set (struggle_sessions proj d).
       s \<in> set (sessions d) \<and> project s = proj \<and> struggle_score s \<noteq> None \<and> 5 < score_of s
       \<and> intent s \<in> {Some ''execution'', Some ''continuation'', Some ''debug''})
   \<and> length (struggle_sessions proj d) \<le> 10
   \<and> sorted_wrt (\<lambda>a b. score_of b \<le> score_of a) (struggle_sessions proj d)
   \<and> (\<forall>s\<in>set (correction_sessions proj d).
         s \<in> set (sessions d) \<and> project s = proj \<and> 0 < correction_count s)
   \<and> length (correction_sessions proj d) \<le> 10
   \<and> sorted_wrt (\<lambda>a b. correction_count b \<le> correction_count a) (correction_sessions proj d)
   \<and> (strategy_a_retry_chains proj min_chain d = Inr out \<longrightarrow>
         fst ` set out \<subseteq> set (struggle_sessions proj d))
   \<and> fst ` set (strategy_b_error_resolution proj d) \<subseteq> set (struggle_sessions proj d)
   \<and> fst ` set (strategy_c_corrections proj d) \<subseteq> set (correction_sessions proj d)
   \<and> fst ` set (strategy_d_tool_repetition proj min_repeats d) \<subseteq> set (struggle_sessions proj d)"
proof -
  have a: "strategy_a_retry_chains proj min_chain d = Inr out \<longrightarrow>
         fst ` set out \<subseteq> set (struggle_sessions proj d)"
    by (simp add: strategy_a_retry_chains_def retry_chains_of_sessions)
  have b: "fst ` set (strategy_b_error_resolution proj d) \<subseteq> set (struggle_sessions proj d)"
    by (auto simp: strategy_b_error_resolution_def Let_def split: if_splits)
  have c: "fst ` set (strategy_c_corrections proj d) \<subseteq> set (correction_sessions proj d)"
    by (auto simp: strategy_c_corrections_def Let_def split: if_splits)
  have d: "fst ` set (strategy_d_tool_repetition proj min_repeats d) \<subseteq> set (struggle_sessions proj d)"
    by (auto simp: strategy_d_tool_repetition_def Let_def split: if_splits)
  have l1: "length (struggle_sessions proj d) \<le> 10"
    by (simp add: struggle_sessions_def)
  have l2: "length (correction_sessions proj d) \<le> 10"
    by (simp add: correction_sessions_def)
  have p1: "\<forall>s\<in>set (struggle_sessions proj d).
       s \<in> set (sessions d) \<and> project s = proj \<and> struggle_score s \<noteq> None \<and> 5 < score_of s
       \<and> intent s \<in> {Some ''execution'', Some ''continuation'', Some ''debug''}"
    using struggle_sessions_props by blast
  have p2: "\<forall>s\<in>set (correction_sessions proj d).
         s \<in> set (sessions d) \<and> project s = proj \<and> 0 < correction_count s"
    using correction_sessions_props by blast
  show ?thesis
    by (rule conjI p1 l1 struggle_sessions_sorted p2 l2 correction_sessions_sorted a b c d)+
qed

lemma busy_fields:
  "project busy_session = ''demo''" "struggle_score busy_session = Some 7"
  "intent busy_session = Some ''execution''" "correction_count busy_session = 1"
  "id_s busy_session = ''claude-code:s1''"
  by (simp_all add: busy_session_def fixed_session_def)

lemma fixed_fields:
  "project fixed_session = ''demo''" "struggle_score fixed_session = Some 3"
  "intent fixed_session = Some ''execution''" "correction_count fixed_session = 1"
  "id_s fixed_session = ''claude-code:s1''"
  by (simp_all add: fixed_session_def)

lemma correction_rows_fixed:
  "correction_rows \<lparr>sessions = ss, messages = map (to_row ''claude-code:s1'') fixed_messages\<rparr>
     ''claude-code:s1'' = [(0, ''no, fix it'', None, Some ''ok'')]"
  by (simp add: correction_rows_def joined_previews_def fixed_messages_def to_row_def)

lemma retry_rows_fixed:
  "retry_rows \<lparr>sessions = ss, messages = map (to_row ''claude-code:s1'') fixed_messages\<rparr>
     ''claude-code:s1'' = []"
  by (simp add: retry_rows_def fixed_messages_def to_row_def)

text \<open>
  The claim as stated fails for extractor C: it selects and reports the session of the
  store \<open>fixed_db\<close>, whose struggle score, 3, does not exceed 5.
\<close>

theorem correction_selection_counterexample:
  "correction_sessions ''demo'' fixed_db = [fixed_session]
   \<and> map fst (strategy_c_corrections ''demo'' fixed_db) = [fixed_session]
   \<and> score_of fixed_session = 3 \<and> \<not> 5 < score_of fixed_session"
proof -
  have c: "correction_sessions ''demo'' fixed_db = [fixed_session]"
    by (simp add: correction_sessions_def fixed_db_def fixed_fields)
  have "map fst (strategy_c_corrections ''demo'' fixed_db) = [fixed_session]"
    unfolding strategy_c_corrections_def c
    by (simp add: fixed_db_def correction_rows_fixed fixed_fields)
  with c show ?thesis
    by (simp add: fixed_fields score_of_def)
qed

theorem extractor_selection_witness:
  "struggle_sessions ''demo'' busy_db = [busy_session]
   \<and> correction_sessions ''demo'' busy_db = [busy_session]
   \<and> busy_session \<in> set (sessions busy_db) \<and> project busy_session = ''demo''
   \<and> score_of busy_session = 7 \<and> intent busy_session = Some ''execution''
   \<and> correction_count busy_session = 1
   \<and> strategy_a_retry_chains ''demo'' 3 busy_db = Inr []
   \<and> map fst (strategy_c_corrections ''demo'' busy_db) = [busy_session]"
proof -
  have s: "struggle_sessions ''demo'' busy_db = [busy_session]"
    by (simp add: struggle_sessions_def busy_db_def busy_fields)
  have c: "correction_sessions ''demo'' busy_db = [busy_session]"
    by (simp add: correction_sessions_def busy_db_def busy_fields)
  have a: "strategy_a_retry_chains ''demo'' 3 busy_db = Inr []"
    unfolding strategy_a_retry_chains_def s
    by (simp add: busy_fields find_chains_def busy_db_def retry_rows_fixed)
  have cc: "map fst (strategy_c_corrections ''demo'' busy_db) = [busy_session]"
    unfolding strategy_c_corrections_def c
    by (simp add: busy_db_def correction_rows_fixed busy_fields)
  have m: "busy_session \<in> set (sessions busy_db)"
    by (simp add: busy_db_def)
  note extractor_selection [of "''demo''" busy_db 3 "[]" 3]
  with s c a cc m show ?thesis
    by (simp only: busy_fields score_of_def option.case simp_thms)
qed

section \<open>B: error and resolution pairs\<close>

lemma find_pairs_iff:
  "(es, et, ds, dt) \<in> set (find_pairs errors discoveries) \<longleftrightarrow>
     (es, et) \<in> set errors
     \<and> find (\<lambda>(disc_seq, disc_text). 0 < disc_seq - es \<and> disc_seq - es \<le> 10) discoveries
         = Some (ds, dt)"
  by (induction errors) (auto simp: find_pairs_def split: option.splits)

lemma find_pairs_length: "length (find_pairs errors discoveries) \<le> length errors"
  by (induction errors) (auto simp: find_pairs_def split: option.splits)

lemma find_Some_mem: "find P xs = Some x \<Longrightarrow> x \<in> set xs \<and> P x"
  by (induction xs) (auto split: if_splits)

lemma find_first_least:
  assumes "sorted (map fst ds)" and "find P ds = Some d" and "d' \<in> set ds" and "P d'"
  shows "fst d \<le> fst d'"
proof -
  from assms(2) obtain i where i: "i < length ds" "ds ! i = d" "\<forall>j<i. \<not> P (ds ! j)"
    by (auto simp: find_Some_iff)
  from assms(3) obtain k where k: "k < length ds" "ds ! k = d'"
    by (auto simp: in_set_conv_nth)
  with i(3) assms(4) have "i \<le> k"
    by (metis not_le_imp_less)
  with assms(1) k(1) have "map fst ds ! i \<le> map fst ds ! k"
    by (intro sorted_nth_mono) simp_all
  with i k show ?thesis by simp
qed

lemma flagged_rows_set:
  "set (flagged_rows d sid)
     = {m \<in> set (messages d). m_session_id m = sid \<and> (has_error m \<or> is_discovery m)}"
  by (auto simp: flagged_rows_def)

lemma flagged_rows_sorted: "sorted (map seq (flagged_rows d sid))"
  by (simp add: flagged_rows_def)


lemma session_pairs_iff:
  "(es, et, ds, dt) \<in> set (session_pairs d sid) \<longleftrightarrow>
     (es, et) \<in> (\<lambda>m. (seq m, content_preview m)) ` {m \<in> set (flagged_rows d sid). has_error m}
     \<and> find (\<lambda>(disc_seq, disc_text). 0 < disc_seq - es \<and> disc_seq - es \<le> 10)
           (map (\<lambda>m. (seq m, content_preview m)) (filter is_discovery (flagged_rows d sid)))
         = Some (ds, dt)"
  by (simp add: session_pairs_def Let_def find_pairs_iff)

lemma discoveries_sorted:
  "sorted (map fst (map (\<lambda>m. (seq m, content_preview m)) (filter is_discovery (flagged_rows d sid))))"
proof -
  have "sorted (map seq (filter is_discovery (flagged_rows d sid)))"
    using flagged_rows_sorted by (rule sorted_filter)
  then show ?thesis by (simp add: comp_def)
qed

lemma session_pairs_sound:
  assumes "(es, et, ds, dt) \<in> set (session_pairs d sid)"
  shows "(\<exists>e\<in>set (messages d). m_session_id e = sid \<and> has_error e \<and> seq e = es
            \<and> content_preview e = et)
       \<and> (\<exists>m\<in>set (messages d). m_session_id m = sid \<and> is_discovery m \<and> seq m = ds
            \<and> content_preview m = dt)
       \<and> es < ds \<and> ds \<le> es + 10
       \<and> (\<forall>m\<in>set (messages d). m_session_id m = sid \<and> is_discovery m \<and> es < seq m
            \<and> seq m \<le> es + 10 \<longrightarrow> ds \<le> seq m)"
proof -
  let ?P = "\<lambda>(disc_seq :: int, disc_text :: string). 0 < disc_seq - es \<and> disc_seq - es \<le> 10"
  let ?D = "map (\<lambda>m. (seq m, content_preview m)) (filter is_discovery (flagged_rows d sid))"
  from assms have e: "(es, et) \<in> (\<lambda>m. (seq m, content_preview m)) ` {m \<in> set (flagged_rows d sid). has_error m}"
    and f: "find ?P ?D = Some (ds, dt)"
    by (simp_all add: session_pairs_iff)
  from e have 1: "\<exists>e\<in>set (messages d). m_session_id e = sid \<and> has_error e \<and> seq e = es
            \<and> content_preview e = et"
    by (auto simp: flagged_rows_set)
  from find_Some_mem [OF f] have in_D: "(ds, dt) \<in> set ?D" and w: "?P (ds, dt)"
    by blast+
  from in_D have 2: "\<exists>m\<in>set (messages d). m_session_id m = sid \<and> is_discovery m \<and> seq m = ds
            \<and> content_preview m = dt"
    by (auto simp: flagged_rows_set)
  have 3: "ds \<le> seq m" if "m \<in> set (messages d)" "m_session_id m = sid" "is_discovery m"
    "es < seq m" "seq m \<le> es + 10" for m
  proof -
    from that have "(seq m, content_preview m) \<in> set ?D"
      by (auto simp: flagged_rows_set)
    moreover from that have "?P (seq m, content_preview m)" by simp
    ultimately have "fst (ds, dt) \<le> fst (seq m, content_preview m)"
      using find_first_least [OF discoveries_sorted f] by blast
    then show ?thesis by simp
  qed
  from 1 2 3 w show ?thesis by auto
qed

lemma session_pairs_complete:
  assumes "e \<in> set (messages d)" "m_session_id e = sid" "has_error e"
    and "m \<in> set (messages d)" "m_session_id m = sid" "is_discovery m"
    and "seq e < seq m" "seq m \<le> seq e + 10"
  shows "\<exists>ds dt. (seq e, content_preview e, ds, dt) \<in> set (session_pairs d sid)"
proof -
  let ?P = "\<lambda>(disc_seq :: int, disc_text :: string). 0 < disc_seq - seq e \<and> disc_seq - seq e \<le> 10"
  let ?D = "map (\<lambda>m. (seq m, content_preview m)) (filter is_discovery (flagged_rows d sid))"
  from assms have "(seq m, content_preview m) \<in> set ?D" "?P (seq m, content_preview m)"
    by (auto simp: flagged_rows_set)
  then have "find ?P ?D \<noteq> None"
    unfolding find_None_iff by blast
  then obtain ds dt where "find ?P ?D = Some (ds, dt)"
    by (cases "find ?P ?D") auto
  moreover from assms have
    "(seq e, content_preview e) \<in> (\<lambda>m. (seq m, content_preview m)) ` {m \<in> set (flagged_rows d sid). has_error m}"
    by (auto simp: flagged_rows_set)
  ultimately show ?thesis
    unfolding session_pairs_iff by blast
qed

lemma session_pairs_length:
  "length (session_pairs d sid)
     \<le> length (filter (\<lambda>m. m_session_id m = sid \<and> has_error m) (messages d))"
proof -
  let ?Q = "\<lambda>m. m_session_id m = sid \<and> (has_error m \<or> is_discovery m)"
  have "length (session_pairs d sid) \<le> length (filter has_error (flagged_rows d sid))"
    using find_pairs_length [of "map (\<lambda>m. (seq m, content_preview m)) (filter has_error (flagged_rows d sid))"]
    by (simp add: session_pairs_def Let_def)
  also have "\<dots> = length (filter has_error (filter ?Q (messages d)))"
    by (simp only: flagged_rows_def filter_sort length_sort)
  also have "filter has_error (filter ?Q (messages d))
      = filter (\<lambda>m. m_session_id m = sid \<and> has_error m) (messages d)"
    unfolding filter_filter by (rule filter_cong) auto
  finally show ?thesis .
qed

lemma stored_row_sel:
  "seq (stored_row k p e r c ts) = k" "content_preview (stored_row k p e r c ts) = p"
  "has_error (stored_row k p e r c ts) = e" "is_retry (stored_row k p e r c ts) = r"
  "is_discovery (stored_row k p e r c ts) = c" "role (stored_row k p e r c ts) = ''assistant''"
  "m_session_id (stored_row k p e r c ts) = ''claude-code:s1''"
  "tool_names (stored_row k p e r c ts) = (if ts = [] then None else Some ts)"
  "m_tool_call_count (stored_row k p e r c ts) = int (length ts)"
  "is_correction (stored_row k p e r c ts) = False"
  by (simp_all add: stored_row_def)

lemma session_pairs_pairs_db:
  "session_pairs pairs_db ''claude-code:s1'' = [(5, ''boom'', 8, ''found'')]"
  by (simp add: session_pairs_def flagged_rows_def find_pairs_def pairs_db_def stored_row_sel)

lemma session_pairs_shared_db:
  "session_pairs shared_db ''claude-code:s1'' = [(1, ''boom'', 3, ''found''), (2, ''bang'', 3, ''found'')]"
  by (simp add: session_pairs_def flagged_rows_def find_pairs_def shared_db_def stored_row_sel)

text \<open>
  C7. In one session, every pair that extractor B finds joins a \<open>has_error\<close> message
  with an \<open>is_discovery\<close> message whose sequence number is strictly greater and at most 10
  greater, and that discovery is the first such one: no discovery of the session in the
  window has a smaller sequence number. Every error with a discovery in its window is
  paired, and no error is paired twice. A discovery is not used up: in the store
  \<open>shared_db\<close> the errors at sequences 1 and 2 both pair with the discovery at sequence 3.
  In the store \<open>pairs_db\<close> the error at sequence 5, with discoveries at 8 and 20, gives
  the one pair with the discovery at 8.
\<close>

theorem error_resolution_pairing:
  "(\<forall>(es, et, ds, dt)\<in>set (session_pairs d sid).
       (\<exists>e\<in>set (messages d). m_session_id e = sid \<and> has_error e \<and> seq e = es
            \<and> content_preview e = et)
       \<and> (\<exists>m\<in>set (messages d). m_session_id m = sid \<and> is_discovery m \<and> seq m = ds
            \<and> content_preview m = dt)
       \<and> es < ds \<and> ds \<le> es + 10
       \<and> (\<forall>m\<in>set (messages d). m_session_id m = sid \<and> is_discovery m \<and> es < seq m
            \<and> seq m \<le> es + 10 \<longrightarrow> ds \<le> seq m))
   \<and> (\<forall>e\<in>set (messages d). \<forall>m\<in>set (messages d).
         m_session_id e = sid \<and> has_error e \<and> m_session_id m = sid \<and> is_discovery m
         \<and> seq e < seq m \<and> seq m \<le> seq e + 10 \<longrightarrow>
         (\<exists>ds dt. (seq e, content_preview e, ds, dt) \<in> set (session_pairs d sid)))
   \<and> length (session_pairs d sid)
       \<le> length (filter (\<lambda>m. m_session_id m = sid \<and> has_error m) (messages d))
   \<and> session_pairs pairs_db ''claude-code:s1'' = [(5, ''boom'', 8, ''found'')]
   \<and> session_pairs shared_db ''claude-code:s1''
       = [(1, ''boom'', 3, ''found''), (2, ''bang'', 3, ''found'')]"
proof -
  have 1: "\<forall>(es, et, ds, dt)\<in>set (session_pairs d sid).
       (\<exists>e\<in>set (messages d). m_session_id e = sid \<and> has_error e \<and> seq e = es
            \<and> content_preview e = et)
       \<and> (\<exists>m\<in>set (messages d). m_session_id m = sid \<and> is_discovery m \<and> seq m = ds
            \<and> content_preview m = dt)
       \<and> es < ds \<and> ds \<le> es + 10
       \<and> (\<forall>m\<in>set (messages d). m_session_id m = sid \<and> is_discovery m \<and> es < seq m
            \<and> seq m \<le> es + 10 \<longrightarrow> ds \<le> seq m)"
  proof (clarify, goal_cases)
    case (1 es et ds dt)
    from session_pairs_sound [OF this] show ?case .
  qed
  have 2: "\<forall>e\<in>set (messages d). \<forall>m\<in>set (messages d).
         m_session_id e = sid \<and> has_error e \<and> m_session_id m = sid \<and> is_discovery m
         \<and> seq e < seq m \<and> seq m \<le> seq e + 10 \<longrightarrow>
         (\<exists>ds dt. (seq e, content_preview e, ds, dt) \<in> set (session_pairs d sid))"
    using session_pairs_complete by blast
  show ?thesis
    by (rule conjI 1 2 session_pairs_length session_pairs_pairs_db session_pairs_shared_db)+
qed

theorem error_resolution_pairing_witness:
  "session_pairs pairs_db ''claude-code:s1'' = [(5, ''boom'', 8, ''found'')]
   \<and> stored_row 5 ''boom'' True False False [] \<in> set (messages pairs_db)
   \<and> stored_row 8 ''found'' False False True [] \<in> set (messages pairs_db)
   \<and> stored_row 20 ''later'' False False True [] \<in> set (messages pairs_db)
   \<and> seq (stored_row 5 ''boom'' True False False []) < seq (stored_row 8 ''found'' False False True [])
   \<and> seq (stored_row 8 ''found'' False False True []) \<le> seq (stored_row 5 ''boom'' True False False []) + 10
   \<and> length (filter (\<lambda>m. m_session_id m = ''claude-code:s1'' \<and> has_error m) (messages pairs_db)) = 1"
  using error_resolution_pairing [of pairs_db "''claude-code:s1''"] session_pairs_pairs_db
  by (simp add: pairs_db_def stored_row_sel)

section \<open>A: retry chains\<close>

lemma zip_tl_nth:
  "zip rs (tl rs) = map (\<lambda>i. (rs ! (i - 1), rs ! i)) [1..<length rs]"
  by (rule nth_equalityI) (auto simp: nth_tl)

lemma fold_steps_pairs:
  "fold (chain_step m rs) [1..<length rs] st
     = fold (\<lambda>(p, c) (chs, cur).
               if fst c - fst p \<le> 5 then (chs, cur @ [c])
               else (if m \<le> int (length cur) then chs @ [cur] else chs, [c]))
         (zip rs (tl rs)) st"
proof -
  have "(\<lambda>(p, c) (chs, cur).
               if fst c - fst p \<le> 5 then (chs, cur @ [c])
               else (if m \<le> int (length cur) then chs @ [cur] else chs, [c]))
        \<circ> (\<lambda>i. (rs ! (i - 1), rs ! i)) = chain_step m rs"
    by (auto simp: fun_eq_iff chain_step_def)
  then show ?thesis
    by (simp only: zip_tl_nth fold_map)
qed

lemma spec_chains_nonempty: "spec_chains (x # xs) \<noteq> []"
  by (induction xs arbitrary: x) (auto split: list.splits)

lemma pairs_loop:
  "(case fold (\<lambda>(p, c) (chs, cur).
               if fst c - fst p \<le> 5 then (chs, cur @ [c])
               else (if m \<le> int (length cur) then chs @ [cur] else chs, [c]))
          (zip (prev # rest) rest) (acc, c0 @ [prev]) of
      (chs, cur) \<Rightarrow> if m \<le> int (length cur) then chs @ [cur] else chs)
   = acc @ filter (\<lambda>c. m \<le> int (length c))
             (case spec_chains (prev # rest) of [] \<Rightarrow> [] | g # gs \<Rightarrow> (c0 @ g) # gs)"
proof (induction rest arbitrary: prev acc c0)
  case Nil
  show ?case by simp
next
  case (Cons c cs)
  obtain g gs where g: "spec_chains (c # cs) = g # gs"
    using spec_chains_nonempty [of c cs] by (cases "spec_chains (c # cs)") auto
  show ?case
  proof (cases "fst c - fst prev \<le> 5")
    case True
    with Cons.IH [of c acc "c0 @ [prev]"] g show ?thesis by simp
  next
    case False
    with Cons.IH [of c "if m \<le> int (length (c0 @ [prev])) then acc @ [c0 @ [prev]] else acc" "[]"] g
    show ?thesis by simp
  qed
qed

lemma pairs_loop_start:
  "(case fold (\<lambda>(p, c) (chs, cur).
               if fst c - fst p \<le> 5 then (chs, cur @ [c])
               else (if m \<le> int (length cur) then chs @ [cur] else chs, [c]))
          (zip (prev # rest) rest) ([], [prev]) of
      (chs, cur) \<Rightarrow> if m \<le> int (length cur) then chs @ [cur] else chs)
   = filter (\<lambda>c. m \<le> int (length c)) (spec_chains (prev # rest))"
proof -
  obtain g gs where g: "spec_chains (prev # rest) = g # gs"
    using spec_chains_nonempty [of prev rest] by (cases "spec_chains (prev # rest)") auto
  from pairs_loop [of m prev rest "[]" "[]"] show ?thesis
    unfolding g by simp
qed

lemma find_chains_spec:
  assumes "retries \<noteq> [] \<or> 0 < min_chain"
  shows "find_chains min_chain retries
           = Inr (filter (\<lambda>c. min_chain \<le> int (length c)) (spec_chains retries))"
proof (cases retries)
  case Nil
  with assms show ?thesis by (simp add: find_chains_def)
next
  case (Cons r0 rest)
  have len: "length c \<le> length rs" if "c \<in> set (spec_chains rs)" for c rs
    using that
  proof (induction rs arbitrary: c rule: spec_chains.induct)
    case (3 x y xs)
    then show ?case
      by (fastforce split: if_splits list.splits)
  qed simp_all
  show ?thesis
  proof (cases "int (length retries) < min_chain")
    case True
    then have "filter (\<lambda>c. min_chain \<le> int (length c)) (spec_chains retries) = []"
      using len [of _ retries] by (fastforce simp: filter_empty_conv)
    with True show ?thesis by (simp add: find_chains_def)
  next
    case False
    from False Cons have nf: "\<not> int (length (r0 # rest)) < min_chain" by simp
    let ?st = "fold (chain_step min_chain (r0 # rest)) [1..<length (r0 # rest)] ([], [r0])"
    have "find_chains min_chain (r0 # rest)
        = (case ?st of (chs, cur) \<Rightarrow>
             Inr (if min_chain \<le> int (length cur) then chs @ [cur] else chs))"
      unfolding find_chains_def by (simp only: nf if_False list.case)
    also have "\<dots> = Inr (case ?st of (chs, cur) \<Rightarrow>
                         if min_chain \<le> int (length cur) then chs @ [cur] else chs)"
      by (cases ?st) (simp only: prod.case)
    also have "(case ?st of (chs, cur) \<Rightarrow>
                  if min_chain \<le> int (length cur) then chs @ [cur] else chs)
        = filter (\<lambda>c. min_chain \<le> int (length c)) (spec_chains (r0 # rest))"
      by (simp only: fold_steps_pairs list.sel pairs_loop_start)
    finally show ?thesis by (simp only: Cons)
  qed
qed

lemma spec_chains_head:
  "spec_chains (x # xs) = g # gs \<Longrightarrow> \<exists>g'. g = x # g'"
  by (cases xs) (auto split: if_splits list.splits)

lemma spec_chains_concat: "concat (spec_chains rs) = rs"
  by (induction rs rule: spec_chains.induct) (auto split: list.splits)

lemma spec_chains_close: "c \<in> set (spec_chains rs) \<Longrightarrow> c \<noteq> [] \<and> close_steps c"
proof (induction rs arbitrary: c rule: spec_chains.induct)
  case (3 x y xs)
  obtain g gs where g: "spec_chains (y # xs) = g # gs"
    using spec_chains_nonempty [of y xs] by (cases "spec_chains (y # xs)") auto
  then obtain g' where g': "g = y # g'"
    using spec_chains_head by blast
  show ?case
  proof (cases "fst y - fst x \<le> 5")
    case True
    with 3 g g' show ?thesis by auto
  next
    case False
    with 3 show ?thesis by auto
  qed
qed simp_all

lemma spec_chains_far: "far_apart (spec_chains rs)"
proof (induction rs rule: spec_chains.induct)
  case (3 x y xs)
  obtain g gs where g: "spec_chains (y # xs) = g # gs"
    using spec_chains_nonempty [of y xs] by (cases "spec_chains (y # xs)") auto
  then obtain g' where g': "g = y # g'"
    using spec_chains_head by blast
  show ?case
  proof (cases "fst y - fst x \<le> 5")
    case True
    with 3 g g' show ?thesis by (cases gs) auto
  next
    case False
    with 3 g g' show ?thesis by auto
  qed
qed simp_all

lemma retry_rows_sorted: "sorted (map fst (retry_rows d sid))"
  by (simp add: retry_rows_def comp_def)

lemma retry_rows_set:
  "set (retry_rows d sid)
     = (\<lambda>m. (seq m, content_preview m)) `
         {m \<in> set (messages d). m_session_id m = sid \<and> is_retry m \<and> role m = ''assistant''}"
  by (auto simp: retry_rows_def)

lemma retry_rows_retries_db:
  "retry_rows retries_db ''claude-code:s1''
     = map (\<lambda>k. (k, ''let me try'')) [2, 3, 4, 10, 11, 12, 13]"
  by (simp add: retry_rows_def retries_db_def stored_row_def)

lemma find_chains_example:
  "find_chains 3 (map (\<lambda>k. (k, ''let me try'')) [2, 3, 4, 10, 11, 12, 13])
     = Inr [map (\<lambda>k. (k, ''let me try'')) [2, 3, 4],
            map (\<lambda>k. (k, ''let me try'')) [10, 11, 12, 13]]"
  by code_simp


lemma strategy_a_example:
  "strategy_a_retry_chains ''demo'' 3 retries_db
     = Inr [(busy_session, map (\<lambda>k. (k, ''let me try'')) [2, 3, 4]),
            (busy_session, map (\<lambda>k. (k, ''let me try'')) [10, 11, 12, 13])]"
proof -
  have s: "struggle_sessions ''demo'' retries_db = [busy_session]"
    by (simp add: struggle_sessions_def retries_db_def busy_session_def fixed_session_def)
  have i: "id_s busy_session = ''claude-code:s1''"
    by (simp add: busy_session_def fixed_session_def)
  show ?thesis
    unfolding strategy_a_retry_chains_def s
    by (simp add: i retry_rows_retries_db find_chains_example [simplified])
qed

text \<open>
  With no retry at all and a \<open>min_chain\<close> that is not positive, the guard on the number
  of retries lets the empty list through and \<open>retries[0]\<close> raises.
\<close>

lemma find_chains_no_retries: "min_chain \<le> 0 \<Longrightarrow> find_chains min_chain [] = Inl IndexError"
  by (simp add: find_chains_def)

text \<open>
  C6. Over the \<open>is_retry\<close> assistant messages of one session in ascending sequence order
  (\<open>retry_rows\<close>), the loop of extractor A returns exactly the chains of the greedy grouping
  \<open>spec_chains\<close> that have at least \<open>min_chain\<close> members, whenever there is a retry or
  \<open>min_chain\<close> is positive (3 by default). The grouping splits the retries into non-empty
  chains, in order; inside a chain each retry is at most 5 sequence numbers after the one
  before it, and each chain starts more than 5 after the end of the previous one. For
  retries at 2, 3, 4, 10, 11, 12, 13 and \<open>min_chain\<close> 3, the extractor reports the two
  chains 2, 3, 4 and 10, 11, 12, 13.
\<close>

theorem retry_chain_grouping:
  "(retries \<noteq> [] \<or> 0 < min_chain \<longrightarrow>
      find_chains min_chain retries
        = Inr (filter (\<lambda>c. min_chain \<le> int (length c)) (spec_chains retries)))
   \<and> concat (spec_chains retries) = retries
   \<and> (\<forall>c\<in>set (spec_chains retries). c \<noteq> [] \<and> close_steps c)
   \<and> far_apart (spec_chains retries)
   \<and> sorted (map fst (retry_rows d sid))
   \<and> set (retry_rows d sid)
       = (\<lambda>m. (seq m, content_preview m)) `
           {m \<in> set (messages d). m_session_id m = sid \<and> is_retry m \<and> role m = ''assistant''}
   \<and> retry_rows retries_db ''claude-code:s1''
       = map (\<lambda>k. (k, ''let me try'')) [2, 3, 4, 10, 11, 12, 13]
   \<and> strategy_a_retry_chains ''demo'' 3 retries_db
       = Inr [(busy_session, map (\<lambda>k. (k, ''let me try'')) [2, 3, 4]),
              (busy_session, map (\<lambda>k. (k, ''let me try'')) [10, 11, 12, 13])]"
proof -
  have 1: "retries \<noteq> [] \<or> 0 < min_chain \<longrightarrow>
      find_chains min_chain retries
        = Inr (filter (\<lambda>c. min_chain \<le> int (length c)) (spec_chains retries))"
    using find_chains_spec by blast
  have 2: "\<forall>c\<in>set (spec_chains retries). c \<noteq> [] \<and> close_steps c"
    using spec_chains_close by blast
  show ?thesis
    by (rule conjI 1 2 spec_chains_concat spec_chains_far retry_rows_sorted retry_rows_set
        retry_rows_retries_db strategy_a_example)+
qed

theorem retry_chain_grouping_witness:
  "map (\<lambda>k. (k, ''let me try'')) [2, 3, 4, 10, 11, 12, 13] \<noteq> []
   \<and> find_chains 3 (map (\<lambda>k. (k, ''let me try'')) [2, 3, 4, 10, 11, 12, 13])
       = Inr [map (\<lambda>k. (k, ''let me try'')) [2, 3, 4],
              map (\<lambda>k. (k, ''let me try'')) [10, 11, 12, 13]]
   \<and> spec_chains (map (\<lambda>k. (k, ''let me try'')) [2, 3, 4, 10, 11, 12, 13])
       = [map (\<lambda>k. (k, ''let me try'')) [2, 3, 4],
          map (\<lambda>k. (k, ''let me try'')) [10, 11, 12, 13]]
   \<and> close_steps (map (\<lambda>k. (k, ''let me try'')) [2, 3, 4])
   \<and> close_steps (map (\<lambda>k. (k, ''let me try'')) [10, 11, 12, 13])
   \<and> map length (spec_chains (map (\<lambda>k. (k, ''let me try'')) [2, 3, 4, 10, 11, 12, 13])) = [3, 4]"
  using retry_chain_grouping
    [of "map (\<lambda>k. (k, ''let me try'')) [2, 3, 4, 10, 11, 12, 13]" 3 retries_db "''claude-code:s1''"]
  by simp

section \<open>D: tool repetition\<close>

lemma scan_run_spec:
  "fst (scan_run p rs chain)
     = chain @ map seq_preview (takeWhile (anchored p) (filter (\<lambda>r. tools_of r \<noteq> []) rs))
   \<and> filter (\<lambda>r. tools_of r \<noteq> []) (snd (scan_run p rs chain))
     = dropWhile (anchored p) (filter (\<lambda>r. tools_of r \<noteq> []) rs)"
  by (induction rs arbitrary: chain)
     (auto simp: anchored_def first_tool_def seq_preview_def split: list.splits)

lemma find_repetitions_spec:
  "find_repetitions min_repeats rows
     = filter (\<lambda>(t, c). min_repeats \<le> int (length c))
         (spec_runs (filter (\<lambda>r. tools_of r \<noteq> []) rows))"
proof (induction min_repeats rows rule: find_repetitions.induct)
  case (1 min_repeats)
  show ?case by simp
next
  case (2 min_repeats r rs)
  show ?case
  proof (cases "tools_of r")
    case Nil
    with 2(1) show ?thesis by simp
  next
    case (Cons primary_tool ts)
    obtain chain rest where sr: "scan_run primary_tool rs [(fst r, snd (snd r))] = (chain, rest)"
      by (cases "scan_run primary_tool rs [(fst r, snd (snd r))]")
    from scan_run_spec [of primary_tool rs "[(fst r, snd (snd r))]"] sr
    have c: "chain = map seq_preview
                (r # takeWhile (anchored primary_tool) (filter (\<lambda>r. tools_of r \<noteq> []) rs))"
      and f: "filter (\<lambda>r. tools_of r \<noteq> []) rest
                = dropWhile (anchored primary_tool) (filter (\<lambda>r. tools_of r \<noteq> []) rs)"
      by (simp_all add: seq_preview_def)
    have ih: "find_repetitions min_repeats rest
        = filter (\<lambda>(t, c). min_repeats \<le> int (length c))
            (spec_runs (filter (\<lambda>r. tools_of r \<noteq> []) rest))"
      using 2(2) [OF Cons sr [symmetric]] .
    from Cons have ft: "first_tool r = Some primary_tool"
      by (simp add: first_tool_def)
    show ?thesis
      using Cons sr by (simp add: ih f ft c)
  qed
qed


lemma spec_runs_concat:
  "concat (map snd (spec_runs rows)) = map seq_preview (filter (\<lambda>r. tools_of r \<noteq> []) rows)"
proof (induction rows rule: spec_runs.induct)
  case 1
  show ?case by simp
next
  case (2 r rs)
  show ?case
  proof (cases "first_tool r")
    case None
    with 2(1) show ?thesis
      by (simp add: first_tool_def split: list.splits)
  next
    case (Some anchor)
    have a: "anchored anchor x \<Longrightarrow> tools_of x \<noteq> []" for x
      by (auto simp: anchored_def first_tool_def)
    have "filter (\<lambda>r. tools_of r \<noteq> []) rs
        = filter (\<lambda>r. tools_of r \<noteq> []) (takeWhile (anchored anchor) rs)
          @ filter (\<lambda>r. tools_of r \<noteq> []) (dropWhile (anchored anchor) rs)"
      by (metis filter_append takeWhile_dropWhile_id)
    moreover have "filter (\<lambda>r. tools_of r \<noteq> []) (takeWhile (anchored anchor) rs)
        = takeWhile (anchored anchor) rs"
      by (rule filter_True) (auto dest: set_takeWhileD a)
    ultimately show ?thesis
      using Some 2(2) [OF Some]
      by (simp add: first_tool_def split: list.splits)
  qed
qed

lemma tool_rows_sorted: "sorted (map fst (tool_rows d sid))"
  by (simp add: tool_rows_def comp_def)

lemma tool_rows_set:
  "set (tool_rows d sid)
     = (\<lambda>m. (seq m, tool_names m, content_preview m)) `
         {m \<in> set (messages d). m_session_id m = sid \<and> 0 < m_tool_call_count m}"
  by (auto simp: tool_rows_def)

lemma find_repetitions_example:
  "find_repetitions 3 tool_rows_with_gap
     = [(JStr ''A'', [(0, ''m0''), (1, ''m1''), (3, ''m3'')]),
        (JStr ''B'', [(4, ''m4''), (5, ''m5''), (6, ''m6'')])]"
  by code_simp

lemma tool_rows_tools_db:
  "tool_rows tools_db ''claude-code:s1''
     = [(0, Some [JStr ''A''], ''m0''), (1, Some [JStr ''A''], ''m1''),
        (3, Some [JStr ''A''], ''m3''), (4, Some [JStr ''B''], ''m4''),
        (5, Some [JStr ''B''], ''m5''), (6, Some [JStr ''B''], ''m6'')]"
  by (simp add: tool_rows_def tools_db_def stored_row_def)

lemma find_repetitions_stored:
  "find_repetitions 3
     [(0, Some [JStr ''A''], ''m0''), (1, Some [JStr ''A''], ''m1''),
      (3, Some [JStr ''A''], ''m3''), (4, Some [JStr ''B''], ''m4''),
      (5, Some [JStr ''B''], ''m5''), (6, Some [JStr ''B''], ''m6'')]
     = [(JStr ''A'', [(0, ''m0''), (1, ''m1''), (3, ''m3'')]),
        (JStr ''B'', [(4, ''m4''), (5, ''m5''), (6, ''m6'')])]"
  by code_simp

lemma strategy_d_example:
  "strategy_d_tool_repetition ''demo'' 3 tools_db
     = [(busy_session,
         [(JStr ''A'', [(0, ''m0''), (1, ''m1''), (3, ''m3'')]),
          (JStr ''B'', [(4, ''m4''), (5, ''m5''), (6, ''m6'')])])]"
proof -
  have s: "struggle_sessions ''demo'' tools_db = [busy_session]"
    by (simp add: struggle_sessions_def tools_db_def busy_session_def fixed_session_def)
  have i: "id_s busy_session = ''claude-code:s1''"
    by (simp add: busy_session_def fixed_session_def)
  have "find_repetitions 3 (tool_rows tools_db (id_s busy_session))
      = [(JStr ''A'', [(0, ''m0''), (1, ''m1''), (3, ''m3'')]),
         (JStr ''B'', [(4, ''m4''), (5, ''m5''), (6, ''m6'')])]"
    by (simp only: i tool_rows_tools_db find_repetitions_stored)
  then show ?thesis
    unfolding strategy_d_tool_repetition_def s by simp
qed

text \<open>
  C8. Extractor D reads the messages of a session that have a tool call, in sequence order
  (\<open>tool_rows\<close>), and its loops return exactly the runs of \<open>spec_runs\<close> over the rows
  that name a tool which have at least \<open>min_repeats\<close> members (3 by default): a row
  without a tool neither joins nor ends a run, a row whose first tool is the run's anchor
  joins it, and a row whose first tool differs starts the next run. The runs split the rows
  that name a tool, in order. For first tools A, A, none, A, B, B, B and \<open>min_repeats\<close> 3,
  given to the loop as rows or read from the store, the result is one run of A with 3
  messages and one run of B with 3 messages.
\<close>

theorem tool_repetition_runs:
  "find_repetitions min_repeats rows
     = filter (\<lambda>(t, c). min_repeats \<le> int (length c))
         (spec_runs (filter (\<lambda>r. tools_of r \<noteq> []) rows))
   \<and> concat (map snd (spec_runs rows)) = map seq_preview (filter (\<lambda>r. tools_of r \<noteq> []) rows)
   \<and> sorted (map fst (tool_rows d sid))
   \<and> set (tool_rows d sid)
       = (\<lambda>m. (seq m, tool_names m, content_preview m)) `
           {m \<in> set (messages d). m_session_id m = sid \<and> 0 < m_tool_call_count m}
   \<and> find_repetitions 3 tool_rows_with_gap
       = [(JStr ''A'', [(0, ''m0''), (1, ''m1''), (3, ''m3'')]),
          (JStr ''B'', [(4, ''m4''), (5, ''m5''), (6, ''m6'')])]
   \<and> strategy_d_tool_repetition ''demo'' 3 tools_db
       = [(busy_session,
           [(JStr ''A'', [(0, ''m0''), (1, ''m1''), (3, ''m3'')]),
            (JStr ''B'', [(4, ''m4''), (5, ''m5''), (6, ''m6'')])])]"
  by (rule conjI find_repetitions_spec spec_runs_concat tool_rows_sorted tool_rows_set
      find_repetitions_example strategy_d_example)+

theorem tool_repetition_runs_witness:
  "find_repetitions 3 tool_rows_with_gap
     = filter (\<lambda>(t, c). 3 \<le> int (length c))
         (spec_runs (filter (\<lambda>r. tools_of r \<noteq> []) tool_rows_with_gap))
   \<and> map (\<lambda>(t, c). (t, length c)) (find_repetitions 3 tool_rows_with_gap)
       = [(JStr ''A'', 3), (JStr ''B'', 3)]"
proof -
  from tool_repetition_runs [of 3 tool_rows_with_gap tools_db "''claude-code:s1''"]
  have a: "find_repetitions 3 tool_rows_with_gap
     = filter (\<lambda>(t, c). 3 \<le> int (length c))
         (spec_runs (filter (\<lambda>r. tools_of r \<noteq> []) tool_rows_with_gap))"
    by (rule conjunct1)
  have b: "map (\<lambda>(t, c). (t, length c)) (find_repetitions 3 tool_rows_with_gap)
       = [(JStr ''A'', 3), (JStr ''B'', 3)]"
    unfolding find_repetitions_example by simp
  from a b show ?thesis by (rule conjI)
qed

section \<open>Reading a file: what the loop keeps\<close>

lemma update_aggregates_fields:
  "message_count (update_aggregates t text names err retry corr s) = message_count s + 1"
  "unique_tools (update_aggregates t text names err retry corr s) = unique_tools s"
  "id_s (update_aggregates t text names err retry corr s) = id_s s"
  by (simp_all add: update_aggregates_def Let_def)

lemma set_update_error:
  "set_update s ns = (tools, Some e) \<Longrightarrow> e = TypeError \<and> \<not> list_all hashable ns"
  by (induction ns arbitrary: s) (auto split: if_splits)

lemma set_update_ok:
  "list_all hashable ns \<Longrightarrow> snd (set_update s ns) = None"
  by (induction ns arbitrary: s) auto


lemma record_message_cases:
  obtains (appended) tools err retry corr disc
    where "classify t text = (err, retry, corr, disc)"
      and "set_update (unique_tools (sess st)) names = (tools, None)"
      and "record_message obj t text names st =
             (st\<lparr>sess := (update_aggregates t text names err retry corr (sess st))\<lparr>unique_tools := tools\<rparr>,
                 msgs := msgs st @
                   [\<lparr>seq = next_seq st, role = t,
                     timestamp = dict_get obj ''timestamp'' (JStr []),
                     content_preview = take 300 text,
                     tool_names = (if names = [] then None else Some names),
                     m_tool_call_count = int (length names),
                     has_error = err, is_retry = retry, is_correction = corr,
                     is_discovery = disc\<rparr>],
                 next_seq := next_seq st + 1\<rparr>, None)"
  | (raised) tools e err retry corr disc
    where "classify t text = (err, retry, corr, disc)"
      and "set_update (unique_tools (sess st)) names = (tools, Some e)"
      and "record_message obj t text names st =
             (st\<lparr>sess := (update_aggregates t text names err retry corr (sess st))\<lparr>unique_tools := tools\<rparr>\<rparr>,
              Some e)"
proof -
  obtain err retry corr disc where c: "classify t text = (err, retry, corr, disc)"
    by (cases "classify t text") auto
  obtain tools r where u: "set_update (unique_tools (sess st)) names = (tools, r)"
    by (cases "set_update (unique_tools (sess st)) names") auto
  show thesis
  proof (cases r)
    case None
    with c u show thesis
      by (intro appended [of err retry corr disc tools])
         (simp_all add: record_message_def update_aggregates_fields)
  next
    case (Some e)
    with c u show thesis
      by (intro raised [of err retry corr disc tools e])
         (simp_all add: record_message_def update_aggregates_fields)
  qed
qed

lemma record_message_ok:
  assumes "record_message obj t text names st = (st', None)"
  shows "(\<exists>m. msgs st' = msgs st @ [m] \<and> seq m = next_seq st \<and> role m = t
           \<and> (has_error m, is_retry m, is_correction m, is_discovery m) = classify t text)
       \<and> next_seq st' = next_seq st + 1
       \<and> message_count (sess st') = message_count (sess st) + 1"
proof (cases rule: record_message_cases [of t "text" st names obj])
  case (appended tools err retry corr disc)
  from assms appended(3) have "st' = st\<lparr>sess := (update_aggregates t text names err retry corr (sess st))\<lparr>unique_tools := tools\<rparr>,
                 msgs := msgs st @
                   [\<lparr>seq = next_seq st, role = t,
                     timestamp = dict_get obj ''timestamp'' (JStr []),
                     content_preview = take 300 text,
                     tool_names = (if names = [] then None else Some names),
                     m_tool_call_count = int (length names),
                     has_error = err, is_retry = retry, is_correction = corr,
                     is_discovery = disc\<rparr>],
                 next_seq := next_seq st + 1\<rparr>"
    by simp
  then show ?thesis
    by (simp add: update_aggregates_fields appended(1))
next
  case (raised tools e err retry corr disc)
  with assms show ?thesis by simp
qed

lemma record_message_raise:
  assumes "record_message obj t text names st = (st', Some e)"
  shows "msgs st' = msgs st \<and> next_seq st' = next_seq st
       \<and> message_count (sess st') = message_count (sess st) + 1
       \<and> e = TypeError \<and> \<not> list_all hashable names"
proof (cases rule: record_message_cases [of t "text" st names obj])
  case (appended tools err retry corr disc)
  with assms show ?thesis by simp
next
  case (raised tools e' err retry corr disc)
  from assms raised(3) have "st' = st\<lparr>sess := (update_aggregates t text names err retry corr (sess st))\<lparr>unique_tools := tools\<rparr>\<rparr>"
    and "e' = e"
    by simp_all
  with set_update_error [OF raised(2)] show ?thesis
    by (simp add: update_aggregates_fields)
qed

lemma process_line_cases [case_names skip early recorded]:
  assumes skip: "process_line py l st = (st, None) \<Longrightarrow> thesis"
    and early: "\<And>e. process_line py l st = (st, Some e) \<Longrightarrow> thesis"
    and recorded: "\<And>d t content nms. t = ''user'' \<or> t = ''assistant'' \<Longrightarrow>
                   process_line py l st = record_message d t content nms st \<Longrightarrow>
                   (hashable_names l \<longrightarrow> list_all hashable nms) \<Longrightarrow> thesis"
  shows thesis
proof (cases l)
  case Blank
  then show thesis by (intro skip) (simp add: process_line_def)
next
  case Malformed
  then show thesis by (intro skip) (simp add: process_line_def)
next
  case ReadFails
  then show thesis by (intro early [of ReadError]) (simp add: process_line_def)
next
  case (Json obj)
  show thesis
  proof (cases obj)
    case (JObj d)
    show thesis
    proof (cases "dict_get d ''type'' JNull")
      case (JStr t)
      show thesis
      proof (cases "t = ''user'' \<or> t = ''assistant''")
        case False
        with Json JObj JStr show thesis
          by (intro skip) (simp add: process_line_def)
      next
        case True
        show thesis
        proof (cases "get_text_content py obj")
          case (Inl e)
          with Json JObj JStr True show thesis
            by (intro early [of e]) (auto simp: process_line_def hashable_names_def)
        next
          case (Inr content)
          show thesis
          proof (cases "t = ''assistant''")
            case False
            with Json JObj JStr True Inr show thesis
              by (intro recorded [of t d content "[]"]) (auto simp: process_line_def hashable_names_def)
          next
            case assistant: True
            show thesis
            proof (cases "message_content obj")
              case (Inl e)
              with Json JObj JStr assistant Inr show thesis
                by (intro early [of e]) (auto simp: process_line_def hashable_names_def)
            next
              case raw: (Inr raw_content)
              with Json JObj JStr assistant Inr show thesis
                by (intro recorded [of t d content "extract_tool_names raw_content"])
                   (auto simp: process_line_def hashable_names_def)
            qed
          qed
        qed
      qed
    qed (use Json JObj in \<open>(intro skip, simp add: process_line_def)+\<close>)
  qed (use Json in \<open>(intro early [of AttributeError], simp add: process_line_def)+\<close>)
qed

lemma read_lines_invariant:
  assumes "I st"
    and "\<And>l st st' e. l \<in> set ls \<Longrightarrow> I st \<Longrightarrow> process_line py l st = (st', e) \<Longrightarrow> I st'"
  shows "I (fst (read_lines py ls st))"
  using assms
proof (induction ls arbitrary: st)
  case Nil
  then show ?case by simp
next
  case (Cons l ls)
  obtain st' e where p: "process_line py l st = (st', e)"
    by (cases "process_line py l st") auto
  have i: "I st'"
    using Cons.prems(2) [of l st st' e] Cons.prems(1) p by simp
  have step: "\<And>l' s s' e'. l' \<in> set ls \<Longrightarrow> I s \<Longrightarrow> process_line py l' s = (s', e') \<Longrightarrow> I s'"
    using Cons.prems(2) by (meson list.set_intros(2))
  show ?case
  proof (cases e)
    case None
    with p Cons.IH [OF i step] show ?thesis by simp
  next
    case (Some x)
    with p i show ?thesis by simp
  qed
qed


lemma process_line_seq:
  assumes "process_line py l st = (st', e)"
    and "map seq (msgs st) = map int [0..<length (msgs st)] \<and> next_seq st = int (length (msgs st))"
  shows "map seq (msgs st') = map int [0..<length (msgs st')] \<and> next_seq st' = int (length (msgs st'))"
proof (cases rule: process_line_cases [of py l st])
  case skip
  with assms show ?thesis by simp
next
  case (early e')
  with assms show ?thesis by simp
next
  case (recorded d t content nms)
  with assms(1) have r: "record_message d t content nms st = (st', e)" by simp
  show ?thesis
  proof (cases e)
    case None
    with record_message_ok [of d t content nms st st'] r assms(2) show ?thesis
      by auto
  next
    case (Some x)
    with record_message_raise [of d t content nms st st' x] r assms(2) show ?thesis
      by auto
  qed
qed

lemma read_lines_seq:
  "map seq (msgs (fst (read_lines py ls \<lparr>sess = s, msgs = [], next_seq = 0\<rparr>)))
     = map int [0..<length (msgs (fst (read_lines py ls \<lparr>sess = s, msgs = [], next_seq = 0\<rparr>)))]"
proof -
  let ?I = "\<lambda>st. map seq (msgs st) = map int [0..<length (msgs st)]
                  \<and> next_seq st = int (length (msgs st))"
  have "?I (fst (read_lines py ls \<lparr>sess = s, msgs = [], next_seq = 0\<rparr>))"
    by (rule read_lines_invariant [where I = ?I]) (simp, rule process_line_seq)
  then show ?thesis by blast
qed


lemma record_message_id: "id_s (sess (fst (record_message d t content nms st))) = id_s (sess st)"
  by (cases rule: record_message_cases [of t content st nms d])
     (simp_all add: update_aggregates_fields)

lemma process_line_id:
  "id_s (sess (fst (process_line py l st))) = id_s (sess st)"
  by (cases rule: process_line_cases [of py l st]) (simp_all add: record_message_id)

lemma read_lines_id: "id_s (sess (fst (read_lines py ls st))) = id_s (sess st)"
proof -
  have "id_s (sess (fst (read_lines py ls st))) = id_s (sess st)" (is "?I (fst (read_lines py ls st))")
  proof (rule read_lines_invariant [where I = "\<lambda>x. id_s (sess x) = id_s (sess st)"])
    show "id_s (sess st) = id_s (sess st)" by simp
  next
    fix l x x' e
    assume "id_s (sess x) = id_s (sess st)" "process_line py l x = (x', e)"
    with process_line_id [of py l x] show "id_s (sess x') = id_s (sess st)" by simp
  qed
  then show ?thesis .
qed

lemma process_line_roles:
  assumes "process_line py l st = (st', e)"
    and "\<forall>m\<in>set (msgs st).
           (role m = ''user'' \<or> role m = ''assistant'')
           \<and> (role m = ''user'' \<longrightarrow> \<not> has_error m \<and> \<not> is_retry m \<and> \<not> is_discovery m)
           \<and> (role m = ''assistant'' \<longrightarrow> \<not> is_correction m)"
  shows "\<forall>m\<in>set (msgs st').
           (role m = ''user'' \<or> role m = ''assistant'')
           \<and> (role m = ''user'' \<longrightarrow> \<not> has_error m \<and> \<not> is_retry m \<and> \<not> is_discovery m)
           \<and> (role m = ''assistant'' \<longrightarrow> \<not> is_correction m)"
proof (cases rule: process_line_cases [of py l st])
  case skip
  with assms show ?thesis by simp
next
  case (early e')
  with assms show ?thesis by simp
next
  case (recorded d t content nms)
  with assms(1) have r: "record_message d t content nms st = (st', e)" by simp
  show ?thesis
  proof (cases e)
    case None
    with record_message_ok [of d t content nms st st'] r obtain m where
      m: "msgs st' = msgs st @ [m]" "role m = t"
         "(has_error m, is_retry m, is_correction m, is_discovery m) = classify t content"
      by blast
    from m(2,3) recorded(1) have
      "(role m = ''user'' \<or> role m = ''assistant'')
           \<and> (role m = ''user'' \<longrightarrow> \<not> has_error m \<and> \<not> is_retry m \<and> \<not> is_discovery m)
           \<and> (role m = ''assistant'' \<longrightarrow> \<not> is_correction m)"
      by (auto simp: classify_def)
    with assms(2) m(1) show ?thesis by simp
  next
    case (Some x)
    with record_message_raise [of d t content nms st st' x] r assms(2) show ?thesis
      by simp
  qed
qed

lemma process_line_count:
  assumes "process_line py l st = (st', e)" and "hashable_names l"
    and "message_count (sess st) = int (length (msgs st))"
  shows "message_count (sess st') = int (length (msgs st'))"
proof (cases rule: process_line_cases [of py l st])
  case skip
  with assms show ?thesis by simp
next
  case (early e')
  with assms show ?thesis by simp
next
  case (recorded d t content nms)
  with assms(1) have r: "record_message d t content nms st = (st', e)" by simp
  show ?thesis
  proof (cases e)
    case None
    with record_message_ok [of d t content nms st st'] r assms(3) show ?thesis
      by auto
  next
    case (Some x)
    with record_message_raise [of d t content nms st st' x] r recorded(3) assms(2)
    show ?thesis by simp
  qed
qed

lemma process_session_Inr:
  assumes "process_session py a proj sid = Inr (s, ms)"
  shows "ms = msgs (fst (read_lines py (file_lines a)
                      \<lparr>sess = new_session a proj sid, msgs = [], next_seq = 0\<rparr>))
       \<and> message_count s
           = message_count (sess (fst (read_lines py (file_lines a)
                      \<lparr>sess = new_session a proj sid, msgs = [], next_seq = 0\<rparr>)))
       \<and> id_s s = ''claude-code:'' @ sid"
proof -
  let ?st = "fst (read_lines py (file_lines a) \<lparr>sess = new_session a proj sid, msgs = [], next_seq = 0\<rparr>)"
  from assms have "ms = msgs ?st" and "message_count s = message_count (sess ?st)"
    and "id_s s = id_s (sess ?st)"
    by (auto simp: process_session_def Let_def split: if_splits)
  moreover have "id_s (sess ?st) = ''claude-code:'' @ sid"
    by (simp add: read_lines_id new_session_def)
  ultimately show ?thesis by simp
qed

lemma sequence_numbers_consecutive:
  assumes "process_session py a proj sid = Inr (s, ms)"
  shows "map seq ms = map int [0..<length ms]"
  using process_session_Inr [OF assms] read_lines_seq [of py "file_lines a" "new_session a proj sid"]
  by simp

lemma message_count_matches:
  assumes "process_session py a proj sid = Inr (s, ms)"
    and "\<forall>l\<in>set (file_lines a). hashable_names l"
  shows "message_count s = int (length ms)"
proof -
  let ?st0 = "\<lparr>sess = new_session a proj sid, msgs = [], next_seq = 0\<rparr>"
  have "message_count (sess (fst (read_lines py (file_lines a) ?st0)))
      = int (length (msgs (fst (read_lines py (file_lines a) ?st0))))"
  proof (rule read_lines_invariant [where I = "\<lambda>st. message_count (sess st) = int (length (msgs st))"])
    show "message_count (sess ?st0) = int (length (msgs ?st0))"
      by (simp add: new_session_def)
  next
    fix l st st' e
    assume "l \<in> set (file_lines a)" "message_count (sess st) = int (length (msgs st))"
      "process_line py l st = (st', e)"
    with assms(2) show "message_count (sess st') = int (length (msgs st'))"
      using process_line_count by blast
  qed
  with process_session_Inr [OF assms(1)] show ?thesis by simp
qed

lemma message_flags_by_role:
  assumes "process_session py a proj sid = Inr (s, ms)"
  shows "\<forall>m\<in>set ms.
           (role m = ''user'' \<or> role m = ''assistant'')
           \<and> (role m = ''user'' \<longrightarrow> \<not> has_error m \<and> \<not> is_retry m \<and> \<not> is_discovery m)
           \<and> (role m = ''assistant'' \<longrightarrow> \<not> is_correction m)"
proof -
  let ?st0 = "\<lparr>sess = new_session a proj sid, msgs = [], next_seq = 0\<rparr>"
  let ?I = "\<lambda>st. \<forall>m\<in>set (msgs st).
           (role m = ''user'' \<or> role m = ''assistant'')
           \<and> (role m = ''user'' \<longrightarrow> \<not> has_error m \<and> \<not> is_retry m \<and> \<not> is_discovery m)
           \<and> (role m = ''assistant'' \<longrightarrow> \<not> is_correction m)"
  have "?I (fst (read_lines py (file_lines a) ?st0))"
  proof (rule read_lines_invariant [where I = ?I])
    show "?I ?st0" by simp
  next
    fix l st st' e
    assume "?I st" "process_line py l st = (st', e)"
    then show "?I st'"
      using process_line_roles [of py l st st' e] by blast
  qed
  with process_session_Inr [OF assms] show ?thesis by simp
qed

section \<open>Evidence flags and sequence numbers\<close>

lemma classify_assistant_issue:
  "classify ''assistant'' ''error: the issue is'' = (True, True, False, True)"
  by code_simp

lemma detect_intent_empty: "detect_intent [] = ''unknown''"
  by (simp add: detect_intent_def)

lemma process_session_issue:
  "process_session no_str (log_file ''s1'' 7 [assistant_line ''error: the issue is'']) ''demo'' ''s1''
     = Inr (\<lparr>id_s = ''claude-code:s1'', project = ''demo'', session_id = ''s1'',
              first_message = None, message_count = 1, user_message_count = 0,
              assistant_message_count = 1, tool_call_count = 0, error_count = 1,
              retry_count = 1, correction_count = 0, unique_tools = [], modified_at = 7,
              raw_path = ''/demo/s1.jsonl'', intent = Some ''unknown'',
              struggle_score = Some 2\<rparr>,
            [\<lparr>seq = 0, role = ''assistant'', timestamp = JStr [],
              content_preview = ''error: the issue is'', tool_names = None,
              m_tool_call_count = 0, has_error = True, is_retry = True,
              is_correction = False, is_discovery = True\<rparr>])"
  by (simp add: eval_defs assistant_line_def classify_assistant_issue detect_intent_empty)

text \<open>
  The claim C2 as stated fails: the assistant text \<open>error: the issue is\<close> sets
  \<open>has_error\<close>, \<open>is_retry\<close> and \<open>is_discovery\<close> on the same message.
\<close>

theorem evidence_flags_counterexample:
  "(case process_session no_str (log_file ''s1'' 7 [assistant_line ''error: the issue is''])
           ''demo'' ''s1'' of
      Inl e \<Rightarrow> False
    | Inr (s, ms) \<Rightarrow>
        map (\<lambda>m. (role m, has_error m, is_retry m, is_discovery m)) ms
          = [(''assistant'', True, True, True)])"
  by (simp add: process_session_issue)

text \<open>
  C2 (as amended). On an assistant message the three flags \<open>has_error\<close>, \<open>is_retry\<close>
  and \<open>is_discovery\<close> are computed independently, each from its own pattern group, and
  any number of them may be set; \<open>is_correction\<close> is computed only for user messages: in
  what \<open>process_session\<close> returns, every message is a user or an assistant message, a user
  message carries none of the three assistant flags, and an assistant message is never a
  correction.
\<close>

theorem evidence_flags_by_role:
  "(process_session py_str a proj sid = Inr (s, ms) \<longrightarrow>
      (\<forall>m\<in>set ms.
         (role m = ''user'' \<or> role m = ''assistant'')
         \<and> (role m = ''user'' \<longrightarrow> \<not> has_error m \<and> \<not> is_retry m \<and> \<not> is_discovery m)
         \<and> (role m = ''assistant'' \<longrightarrow> \<not> is_correction m)))
   \<and> classify ''assistant'' text
       = (check_patterns text ERROR_PATTERNS, check_patterns text RETRY_PATTERNS, False,
          check_patterns text DISCOVERY_PATTERNS)
   \<and> classify ''user'' text = (False, False, check_patterns text CORRECTION_PATTERNS, False)"
  using message_flags_by_role [of py_str a proj sid s ms]
  by (simp add: classify_def)

theorem evidence_flags_by_role_witness:
  "process_session no_str
       (log_file ''s1'' 7 [user_line ''no, fix it'', tool_line (JStr ''Bash'')]) ''demo'' ''s1''
     = Inr (fixed_session, fixed_messages)
   \<and> map (\<lambda>m. (role m, has_error m, is_retry m, is_correction m, is_discovery m)) fixed_messages
       = [(''user'', False, False, True, False), (''assistant'', False, False, False, False)]"
  using evidence_flags_by_role
    [of no_str "log_file ''s1'' 7 [user_line ''no, fix it'', tool_line (JStr ''Bash'')]"
        "''demo''" "''s1''" fixed_session fixed_messages]
    process_session_fixed
  by (simp add: fixed_messages_def)

lemma process_session_bad_tool:
  "process_session no_str (log_file ''s1'' 7 [tool_line (JArr [JStr ''x''])]) ''demo'' ''s1''
     = Inr (\<lparr>id_s = ''claude-code:s1'', project = ''demo'', session_id = ''s1'',
              first_message = None, message_count = 1, user_message_count = 0,
              assistant_message_count = 1, tool_call_count = 1, error_count = 0,
              retry_count = 0, correction_count = 0, unique_tools = [], modified_at = 7,
              raw_path = ''/demo/s1.jsonl'', intent = Some ''unknown'',
              struggle_score = Some 0\<rparr>, [])"
  by (simp add: eval_defs classify_assistant_ok detect_intent_empty)

text \<open>
  C10. The sequence numbers of the messages that \<open>process_session\<close> returns are always
  0, 1, ..., N - 1 for the N messages returned (\<open>sequence_numbers_consecutive\<close>), and N is
  the stored \<open>message_count\<close> when every tool name is hashable
  (\<open>message_count_matches\<close>). The count is raised before the tool names go into the set
  and the message is appended after: a tool call whose name is a JSON list makes the set
  update raise, the exception is swallowed, and the session is stored with
  \<open>message_count\<close> 1 and no message row.
\<close>

theorem message_count_mismatch:
  "(case process_session no_str (log_file ''s1'' 7 [tool_line (JArr [JStr ''x''])]) ''demo'' ''s1'' of
      Inl e \<Rightarrow> False
    | Inr (s, ms) \<Rightarrow> message_count s = 1 \<and> ms = [])
   \<and> (case ingest no_str None None False [log_file ''s1'' 7 [tool_line (JArr [JStr ''x''])]]
            empty_db of
        Inl e \<Rightarrow> False
      | Inr d \<Rightarrow> map message_count (sessions d) = [1] \<and> messages d = [])"
proof -
  have "\<not> skips None None Map.empty (log_file ''s1'' 7 [tool_line (JArr [JStr ''x''])])"
    by (simp add: skips_def endswith_def log_file_sel)
  then show ?thesis
    using process_session_bad_tool
    by (simp add: ingest_def existing_of_def empty_db_def log_file_sel decode_demo remove_jsonl_s1
        store_session_def insert_message_def delete_messages_def insert_or_replace_session_def)
qed

end
